theory Spec2Isabelle
  imports Main
begin

section \<open>Data values as the renderer sees them through reflection\<close>

text \<open>
  The renderer of \<^verbatim>\<open>mustache.go\<close> inspects caller data only through
  \<^verbatim>\<open>reflect.Value\<close>: its validity, its kind, \<^verbatim>\<open>Elem\<close>, \<^verbatim>\<open>Len\<close>/\<^verbatim>\<open>Index\<close>,
  \<^verbatim>\<open>FieldByName\<close> and \<^verbatim>\<open>MapIndex\<close>. A value is modelled by what these calls return.
  \<^item> \<open>Invalid\<close> is the zero \<^verbatim>\<open>reflect.Value{}\<close> (what \<^verbatim>\<open>reflect.ValueOf(nil)\<close> and a failed
    lookup give);
  \<^item> \<open>VPtr e\<close> and \<open>VIface e\<close> are values of kind Ptr and Interface whose \<^verbatim>\<open>Elem()\<close>
    is \<open>e\<close>; a nil pointer is \<open>VPtr Invalid\<close>, a nil interface is \<open>VIface Invalid\<close>;
  \<^item> \<open>VMap\<close> is a map with string keys, \<open>VStruct\<close> a struct with its fields, both as
    association lists; \<open>VInt\<close> and \<open>VStr\<close> stand for the scalar kinds;
  \<^item> \<open>VReadOnly v\<close> is the value \<open>v\<close> carrying the read-only flag of \<^verbatim>\<open>reflect\<close>: it was
    reached through an unexported struct field. It has the kind and the content of \<open>v\<close>,
    every value reached from it carries the flag too, and \<^verbatim>\<open>Interface()\<close> panics on it.
  The values are finite trees of types without exported methods, so
  \<^verbatim>\<open>NumMethod()\<close> is 0 at every step and the method loops of \<^verbatim>\<open>lookup\<close> do not run.
\<close>

datatype val =
    Invalid
  | VBool bool
  | VInt int
  | VStr string
  | VSlice "val list"
  | VArray "val list"
  | VMap "(string \<times> val) list"
  | VStruct "(string \<times> val) list"
  | VPtr val
  | VIface val
  | VReadOnly val

text \<open>
  Setting the read-only flag. The zero \<^verbatim>\<open>reflect.Value\<close> has no flag: \<^verbatim>\<open>Elem()\<close> of a nil
  pointer is the zero value whatever the pointer's flags.
\<close>

fun readOnly :: "val \<Rightarrow> val" where
  "readOnly Invalid = Invalid"
| "readOnly (VReadOnly v) = VReadOnly v"
| "readOnly v = VReadOnly v"

text \<open>\<^verbatim>\<open>v.Interface()\<close> returns for a valid value without the flag, and panics with it.\<close>

fun canInterface :: "val \<Rightarrow> bool" where
  "canInterface (VReadOnly v) = False"
| "canInterface v = True"

text \<open>
  A field is exported when its name starts with an upper case letter. A name that starts
  with an ASCII character other than \<^verbatim>\<open>A\<close> to \<^verbatim>\<open>Z\<close> is unexported; for a name that starts with
  a byte outside ASCII the field list tells: the value of an unexported field is held as
  \<open>VReadOnly\<close>. \<^verbatim>\<open>FieldByName\<close> gives the zero value when there is no such field, and the
  field's value, flagged when the field is unexported, when there is one.
\<close>

definition unexported :: "string \<Rightarrow> bool" where
  "unexported name =
     (name \<noteq> [] \<and> (of_char (hd name) :: nat) < 128
      \<and> \<not> (65 \<le> (of_char (hd name) :: nat) \<and> (of_char (hd name) :: nat) \<le> 90))"

definition FieldByName :: "(string \<times> val) list \<Rightarrow> string \<Rightarrow> val" where
  "FieldByName fs name =
     (case map_of fs name of
        None \<Rightarrow> Invalid
      | Some ret \<Rightarrow> if unexported name then readOnly ret else ret)"

section \<open>Context resolver\<close>

text \<open>\<^verbatim>\<open>strings.SplitN(s, sep, 2)\<close> for a one-character separator.\<close>

definition SplitN2 :: "char \<Rightarrow> string \<Rightarrow> string list" where
  "SplitN2 sep s =
     (if sep \<in> set s
      then [takeWhile (\<lambda>c. c \<noteq> sep) s, tl (dropWhile (\<lambda>c. c \<noteq> sep) s)]
      else [s])"

text \<open>
  The body of the \<^verbatim>\<open>Outer\<close> loop of \<^verbatim>\<open>lookup\<close> for one frame \<open>ctx\<close>: the inner loop
  \<^verbatim>\<open>for v.IsValid()\<close>. \<open>Some r\<close> is \<^verbatim>\<open>return r\<close>; \<open>None\<close> is \<^verbatim>\<open>continue Outer\<close>, or the
  inner loop ending on an invalid value. On a flagged value the loop takes the steps it
  takes on the value itself, since no step of it looks at the flag, and what it returns
  carries the flag.
\<close>

fun lookupCtx :: "string \<Rightarrow> val \<Rightarrow> val option" where
  "lookupCtx name Invalid = None"
| "lookupCtx name (VPtr e) = (if name = ''.'' then Some (VPtr e) else lookupCtx name e)"
| "lookupCtx name (VIface e) = (if name = ''.'' then Some (VIface e) else lookupCtx name e)"
| "lookupCtx name (VStruct fs) =
     (if name = ''.'' then Some (VStruct fs)
      else (let ret = FieldByName fs name in if ret \<noteq> Invalid then Some ret else None))"
| "lookupCtx name (VMap kvs) =
     (if name = ''.'' then Some (VMap kvs)
      else (case map_of kvs name of
              Some ret \<Rightarrow> (if ret \<noteq> Invalid then Some ret else None)
            | None \<Rightarrow> None))"
| "lookupCtx name (VReadOnly v) =
     (if name = ''.'' then Some (VReadOnly v) else map_option readOnly (lookupCtx name v))"
| "lookupCtx name v = (if name = ''.'' then Some v else None)"

text \<open>The \<^verbatim>\<open>Outer\<close> loop over the chain, from index 0; the zero value when it ends.\<close>

fun lookupOuter :: "string \<Rightarrow> val list \<Rightarrow> val" where
  "lookupOuter name [] = Invalid"
| "lookupOuter name (ctx # rest) =
     (case lookupCtx name ctx of Some r \<Rightarrow> r | None \<Rightarrow> lookupOuter name rest)"

function lookup :: "val list \<Rightarrow> string \<Rightarrow> val" where
  "lookup contextChain name =
     (if name \<noteq> ''.'' \<and> CHR ''.'' \<in> set name
      then (let parts = SplitN2 (CHR ''.'') name;
                v = lookup contextChain (parts ! 0)
            in lookup [v] (parts ! 1))
      else lookupOuter name contextChain)"
  by pat_completeness auto
termination
proof -
  have head: "length (SplitN2 (CHR ''.'') name ! 0) < length name" if "CHR ''.'' \<in> set name" for name
  proof -
    have "length (takeWhile (\<lambda>c. c \<noteq> CHR ''.'') xs) < length xs" if "CHR ''.'' \<in> set xs" for xs
      using that by (induction xs) auto
    with that show ?thesis by (simp add: SplitN2_def)
  qed
  have rest: "length (SplitN2 (CHR ''.'') name ! Suc 0) < length name" if "CHR ''.'' \<in> set name" for name
  proof -
    from that have "dropWhile (\<lambda>c. c \<noteq> CHR ''.'') name \<noteq> []" by simp
    then have "length (tl (dropWhile (\<lambda>c. c \<noteq> CHR ''.'') name)) < length (dropWhile (\<lambda>c. c \<noteq> CHR ''.'') name)"
      by (cases "dropWhile (\<lambda>c. c \<noteq> CHR ''.'') name") simp_all
    also have "\<dots> \<le> length name" by (rule length_dropWhile_le)
    finally show ?thesis using that by (simp add: SplitN2_def)
  qed
  show ?thesis
    by (relation "measure (\<lambda>(c, name). length name)") (auto simp: head rest)
qed

declare lookup.simps [simp del]

fun indirect :: "val \<Rightarrow> val" where
  "indirect (VPtr e) = indirect e"
| "indirect (VIface e) = indirect e"
| "indirect (VReadOnly v) = readOnly (indirect v)"
| "indirect v = v"

text \<open>
  \<^verbatim>\<open>isEmpty\<close> on a value whose \<^verbatim>\<open>Interface()\<close> returns:
  \<^verbatim>\<open>v.Interface() == nil\<close> holds for a valid value exactly when it is a nil interface.
  On a valid value that carries the read-only flag the call \<^verbatim>\<open>v.Interface()\<close> panics;
  \<^verbatim>\<open>renderSection\<close>, the only caller, has that panic as a branch of its own.
\<close>

definition isEmpty :: "val \<Rightarrow> bool" where
  "isEmpty v =
     (if v = Invalid \<or> v = VIface Invalid then True
      else let valueInd = indirect v in
        if valueInd = Invalid then True
        else (case valueInd of
                VBool b \<Rightarrow> \<not> b
              | VSlice xs \<Rightarrow> length xs = 0
              | _ \<Rightarrow> False))"

section \<open>Elements and templates\<close>

datatype element =
    TextElement (etext: string)
  | VarElement (vname: string) (raw: bool)
  | SectionElement (sname: string) (inverted: bool) (startline: nat) (selems: "element list")
  | TemplateElement template
and template =
    Template (data: string) (otag: string) (ctag: string) (p: nat) (curline: nat)
             (dir: string) (elems: "element list")

datatype error =
    ParseError nat string
  | CouldNotFindPartial string
  | ReadFileError string
  | Panic string


section \<open>Renderer\<close>

text \<open>
  Modelled from the spec: \<^verbatim>\<open>htmlEscape\<close> is called by \<^verbatim>\<open>renderElement\<close> but its body is
  not among the source files (only the five replacement texts \<^verbatim>\<open>esc_quot\<close>, \<^verbatim>\<open>esc_apos\<close>,
  \<^verbatim>\<open>esc_amp\<close>, \<^verbatim>\<open>esc_lt\<close>, \<^verbatim>\<open>esc_gt\<close> are). The spec gives five substitutions, the
  ampersand substituted first: each is a pass that replaces every occurrence of one character.
\<close>

definition esc_quot :: string where "esc_quot = ''&quot;''"
definition esc_apos :: string where "esc_apos = ''&apos;''"
definition esc_amp :: string where "esc_amp = ''&amp;''"
definition esc_lt :: string where "esc_lt = ''&lt;''"
definition esc_gt :: string where "esc_gt = ''&gt;''"

fun substitute :: "char \<Rightarrow> string \<Rightarrow> string \<Rightarrow> string" where
  "substitute c esc [] = []"
| "substitute c esc (x # xs) = (if x = c then esc @ substitute c esc xs else x # substitute c esc xs)"

definition htmlEscape :: "string \<Rightarrow> string" where
  "htmlEscape s =
     substitute (CHR ''>'') esc_gt
       (substitute (CHR ''<'') esc_lt
         (substitute (CHR 0x27) esc_apos
           (substitute (CHR 0x22) esc_quot
             (substitute (CHR ''&'') esc_amp s))))"

text \<open>
  Rendering writes to a buffer; a render function returns the text it appends, or the panic
  that aborts the render (\<open>Inl\<close>). \<open>seqOut\<close> runs the renders of a loop in order and stops at
  the first panic.
\<close>

fun seqOut :: "(error + string) list \<Rightarrow> error + string" where
  "seqOut [] = Inr []"
| "seqOut (Inl e # rs) = Inl e"
| "seqOut (Inr a # rs) = (case seqOut rs of Inl e \<Rightarrow> Inl e | Inr b \<Rightarrow> Inr (a @ b))"

text \<open>
  \<open>sprint v\<close> stands for \<^verbatim>\<open>fmt.Sprint(v.Interface())\<close>, the text the \<^verbatim>\<open>fmt\<close> package prints
  for a value; it is a parameter of the renderer. In the variable case \<^verbatim>\<open>renderElement\<close>
  defers a function that recovers a panic: when \<^verbatim>\<open>val.Interface()\<close> panics, on a flagged
  value, nothing has been written to the buffer and the call returns. \<^verbatim>\<open>renderSection\<close>
  indexes \<^verbatim>\<open>contextChain[len(contextChain)-1]\<close> right after the lookup, which panics on an
  empty chain, and then calls \<^verbatim>\<open>isEmpty\<close>, whose \<^verbatim>\<open>v.Interface()\<close> panics on a flagged
  value; no function recovers these two. \<^verbatim>\<open>chain2\<close> is the chain with \<open>ctx\<close> stored in
  front.
\<close>

fun renderElement :: "(val \<Rightarrow> string) \<Rightarrow> element \<Rightarrow> val list \<Rightarrow> error + string"
and renderSection :: "(val \<Rightarrow> string) \<Rightarrow> string \<Rightarrow> bool \<Rightarrow> element list \<Rightarrow> val list \<Rightarrow> error + string"
and renderTemplate :: "(val \<Rightarrow> string) \<Rightarrow> template \<Rightarrow> val list \<Rightarrow> error + string"
where
  "renderElement sprint (TextElement t) contextChain = Inr t"
| "renderElement sprint (VarElement name r) contextChain =
     (let val = lookup contextChain name in
        if val \<noteq> Invalid
        then (if \<not> canInterface val then Inr []
              else if r then Inr (sprint val) else Inr (htmlEscape (sprint val)))
        else Inr [])"
| "renderElement sprint (SectionElement name invd sl es) contextChain =
     renderSection sprint name invd es contextChain"
| "renderElement sprint (TemplateElement t) contextChain = renderTemplate sprint t contextChain"
| "renderSection sprint name invd es contextChain =
     (let value = lookup contextChain name in
        if contextChain = [] then Inl (Panic ''index out of range'')
        else if value \<noteq> Invalid \<and> \<not> canInterface value
        then Inl (Panic ''cannot return value obtained from unexported field or method'')
        else
          let context = last contextChain;
              isEmp = isEmpty value
          in if isEmp \<and> \<not> invd \<or> \<not> isEmp \<and> invd then Inr []
             else
               let contexts =
                     (if \<not> invd
                      then (case indirect value of
                              VSlice xs \<Rightarrow> xs
                            | VArray xs \<Rightarrow> xs
                            | VMap kvs \<Rightarrow> [value]
                            | VStruct fs \<Rightarrow> [value]
                            | _ \<Rightarrow> [context])
                      else [context])
               in seqOut (map (\<lambda>ctx. seqOut (map (\<lambda>elem. renderElement sprint elem (ctx # contextChain)) es))
                            contexts))"
| "renderTemplate sprint (Template d ot ct pos cl di es) contextChain =
     seqOut (map (\<lambda>elem. renderElement sprint elem contextChain) es)"

text \<open>
  The method \<^verbatim>\<open>(*Template).Render\<close>. A context argument is passed through
  \<^verbatim>\<open>reflect.ValueOf\<close>; the caller gives the resulting values (\<open>Invalid\<close> for a nil argument).
\<close>

definition Template_Render :: "(val \<Rightarrow> string) \<Rightarrow> template \<Rightarrow> val list \<Rightarrow> error + string" where
  "Template_Render sprint t context = renderTemplate sprint t context"


section \<open>Scanner\<close>

text \<open>Field updates of the \<^verbatim>\<open>Template\<close> struct.\<close>

definition set_p :: "nat \<Rightarrow> template \<Rightarrow> template" where
  "set_p n t = Template (data t) (otag t) (ctag t) n (curline t) (dir t) (elems t)"

definition set_curline :: "nat \<Rightarrow> template \<Rightarrow> template" where
  "set_curline n t = Template (data t) (otag t) (ctag t) (p t) n (dir t) (elems t)"

definition set_tags :: "string \<Rightarrow> string \<Rightarrow> template \<Rightarrow> template" where
  "set_tags ot ct t = Template (data t) ot ct (p t) (curline t) (dir t) (elems t)"

definition append_elem :: "element \<Rightarrow> template \<Rightarrow> template" where
  "append_elem e t = Template (data t) (otag t) (ctag t) (p t) (curline t) (dir t) (elems t @ [e])"

text \<open>
  The loop of \<^verbatim>\<open>readString\<close> from index \<open>i\<close> with \<open>newlines\<close> counted so far.
  \<open>Inr None\<close> is the return with \<^verbatim>\<open>io.EOF\<close>; \<open>Inr (Some (e, newlines))\<close> is a match ending at
  \<open>e\<close>; \<open>Inl\<close> is the index panic of \<^verbatim>\<open>template.data[i]\<close> or \<^verbatim>\<open>s[0]\<close>, which an empty
  marker causes. The inner loop over \<open>j\<close> compares the marker from its second character.
\<close>

function readLoop :: "string \<Rightarrow> string \<Rightarrow> nat \<Rightarrow> nat \<Rightarrow> error + (nat \<times> nat) option" where
  "readLoop s dat i newlines =
     (if i + length s > length dat then Inr None
      else if i \<ge> length dat then Inl (Panic ''index out of range'')
      else
        let newlines' = (if dat ! i = CHR 0x0A then newlines + 1 else newlines) in
          if s = [] then Inl (Panic ''index out of range'')
          else if dat ! i \<noteq> s ! 0 then readLoop s dat (i + 1) newlines'
          else if list_all (\<lambda>j. s ! j = dat ! (i + j)) [1..<length s]
               then Inr (Some (i + length s, newlines'))
               else readLoop s dat (i + 1) newlines')"
  by pat_completeness auto
termination
  by (relation "measure (\<lambda>(s, dat, i, n). length dat - i)") auto

declare readLoop.simps [simp del]

text \<open>
  \<^verbatim>\<open>readString\<close>: the text read, whether \<^verbatim>\<open>io.EOF\<close> was returned, and the template after
  the call. The slice \<^verbatim>\<open>template.data[template.p:]\<close> panics when \<open>p\<close> is past the end.
\<close>

definition readString :: "string \<Rightarrow> template \<Rightarrow> error + (string \<times> bool \<times> template)" where
  "readString s t =
     (case readLoop s (data t) (p t) 0 of
        Inl e \<Rightarrow> Inl e
      | Inr None \<Rightarrow>
          (if p t > length (data t) then Inl (Panic ''slice bounds out of range'')
           else Inr (drop (p t) (data t), True, t))
      | Inr (Some (e, newlines)) \<Rightarrow>
          Inr (take (e - p t) (drop (p t) (data t)), False,
               set_curline (curline t + newlines) (set_p e t)))"

section \<open>Parser\<close>

text \<open>
  \<^verbatim>\<open>strings.TrimSpace\<close> cuts the leading and the trailing white space off a string of
  UTF-8 bytes, white space as \<^verbatim>\<open>unicode.IsSpace\<close> defines it. \<open>spaceRunes\<close> are the UTF-8
  encodings of the white space code points: tab, line feed, vertical tab, form feed, carriage
  return, space, U+0085, U+00A0, U+1680, U+2000 to U+200A, U+2028, U+2029, U+202F, U+205F and
  U+3000. Go decodes the first rune of the string, and the last one, and cuts it while it is
  white space; a byte sequence that is not valid UTF-8 decodes to U+FFFD, which is not white
  space. A string starts with the bytes of a white space rune exactly when its first rune is
  that rune, and ends with them exactly when its last rune is: \<open>leadingSpace\<close> and
  \<open>trailingSpace\<close> give the width in bytes of that rune, 0 when there is none.
\<close>

definition spaceRunes :: "string list" where
  "spaceRunes =
     [[CHR 0x09], [CHR 0x0A], [CHR 0x0B], [CHR 0x0C], [CHR 0x0D], [CHR 0x20],
      [CHR 0xC2, CHR 0x85], [CHR 0xC2, CHR 0xA0],
      [CHR 0xE1, CHR 0x9A, CHR 0x80],
      [CHR 0xE2, CHR 0x80, CHR 0x80], [CHR 0xE2, CHR 0x80, CHR 0x81], [CHR 0xE2, CHR 0x80, CHR 0x82],
      [CHR 0xE2, CHR 0x80, CHR 0x83], [CHR 0xE2, CHR 0x80, CHR 0x84], [CHR 0xE2, CHR 0x80, CHR 0x85],
      [CHR 0xE2, CHR 0x80, CHR 0x86], [CHR 0xE2, CHR 0x80, CHR 0x87], [CHR 0xE2, CHR 0x80, CHR 0x88],
      [CHR 0xE2, CHR 0x80, CHR 0x89], [CHR 0xE2, CHR 0x80, CHR 0x8A],
      [CHR 0xE2, CHR 0x80, CHR 0xA8], [CHR 0xE2, CHR 0x80, CHR 0xA9], [CHR 0xE2, CHR 0x80, CHR 0xAF],
      [CHR 0xE2, CHR 0x81, CHR 0x9F],
      [CHR 0xE3, CHR 0x80, CHR 0x80]]"

definition leadingSpace :: "string \<Rightarrow> nat" where
  "leadingSpace s =
     (case find (\<lambda>r. take (length r) s = r) spaceRunes of Some r \<Rightarrow> length r | None \<Rightarrow> 0)"

definition trailingSpace :: "string \<Rightarrow> nat" where
  "trailingSpace s =
     (case find (\<lambda>r. length r \<le> length s \<and> drop (length s - length r) s = r) spaceRunes of
        Some r \<Rightarrow> length r | None \<Rightarrow> 0)"

function TrimLeftSpace :: "string \<Rightarrow> string" where
  "TrimLeftSpace s = (if leadingSpace s = 0 then s else TrimLeftSpace (drop (leadingSpace s) s))"
  by pat_completeness auto
termination
proof (relation "measure length")
  show "wf (measure length)" by simp
next
  fix s :: string
  assume a: "leadingSpace s \<noteq> 0"
  then obtain r where f: "find (\<lambda>r. take (length r) s = r) spaceRunes = Some r" and l: "length r \<noteq> 0"
    by (auto simp: leadingSpace_def split: option.splits)
  from f have "take (length r) s = r" by (auto simp: find_Some_iff)
  with l have "s \<noteq> []" by auto
  with a show "(drop (leadingSpace s) s, s) \<in> measure length" by simp
qed

function TrimRightSpace :: "string \<Rightarrow> string" where
  "TrimRightSpace s = (if trailingSpace s = 0 then s else TrimRightSpace (take (length s - trailingSpace s) s))"
  by pat_completeness auto
termination
proof (relation "measure length")
  show "wf (measure length)" by simp
next
  fix s :: string
  assume a: "trailingSpace s \<noteq> 0"
  then obtain r where f: "find (\<lambda>r. length r \<le> length s \<and> drop (length s - length r) s = r) spaceRunes = Some r"
      and l: "length r \<noteq> 0"
    by (auto simp: trailingSpace_def split: option.splits)
  from f have "length r \<le> length s" by (auto simp: find_Some_iff)
  with l have "s \<noteq> []" by auto
  with a show "(take (length s - trailingSpace s) s, s) \<in> measure length" by simp
qed

declare TrimLeftSpace.simps [simp del] TrimRightSpace.simps [simp del]

definition TrimSpace :: "string \<Rightarrow> string" where
  "TrimSpace s = TrimRightSpace (TrimLeftSpace s)"

text \<open>
  What the parser asks of its surroundings: \<open>canOpen f\<close> says whether \<^verbatim>\<open>os.Open(f)\<close>
  succeeds, \<open>readFile f\<close> is \<^verbatim>\<open>ioutil.ReadFile(f)\<close> (\<open>Inl\<close> the error's message),
  \<open>pathJoin\<close> is \<^verbatim>\<open>path.Join\<close> of two elements and \<open>cwd\<close> is \<^verbatim>\<open>os.Getenv("CWD")\<close>;
  \<open>quoted s\<close> is \<^verbatim>\<open>fmt.Sprintf("%q", s)\<close>, the string as a Go literal in double quotes.
\<close>

record env =
  canOpen :: "string \<Rightarrow> bool"
  readFile :: "string \<Rightarrow> string + string"
  pathJoin :: "string \<Rightarrow> string \<Rightarrow> string"
  cwd :: string
  quoted :: "string \<Rightarrow> string"

text \<open>The directory part of \<^verbatim>\<open>path.Split\<close>: up to and including the final slash.\<close>

definition pathSplitDir :: "string \<Rightarrow> string" where
  "pathSplitDir filename = rev (dropWhile (\<lambda>c. c \<noteq> CHR ''/'') (rev filename))"

text \<open>
  A parse runs out of fuel (\<open>OutOfFuel\<close>: the model gave up, the Go code may still be
  running, as it does forever on a partial that includes itself), fails with an error or a
  panic (\<open>Fail\<close>), or returns (\<open>Return\<close>).
\<close>

datatype 'a result = OutOfFuel | Fail error | Return 'a

text \<open>
  The part both \<^verbatim>\<open>parse\<close> and \<^verbatim>\<open>parseSection\<close> run after an open delimiter: read up to the
  close marker (\<^verbatim>\<open>"}" + ctag\<close> when a brace follows the open delimiter), fail on end of input
  with "unmatched open tag", trim the tag and fail on an empty one.
\<close>

definition readTag :: "template \<Rightarrow> error + (string \<times> template)" where
  "readTag t =
     (case (if p t < length (data t) \<and> data t ! p t = CHR ''{''
            then readString (CHR ''}'' # ctag t) t
            else readString (ctag t) t) of
        Inl e \<Rightarrow> Inl e
      | Inr (txt, eof, t') \<Rightarrow>
          if eof then Inl (ParseError (curline t') ''unmatched open tag'')
          else
            let tag = TrimSpace (take (length txt - length (ctag t')) txt) in
              if length tag = 0 then Inl (ParseError (curline t') ''empty tag'')
              else Inr (tag, t'))"

text \<open>The line break skipped right after a section's opening tag.\<close>

definition skipNewline :: "template \<Rightarrow> template" where
  "skipNewline t =
     (if length (data t) > p t \<and> data t ! p t = CHR 0x0A then set_p (p t + 1) t
      else if length (data t) > p t + 1 \<and> data t ! p t = CHR 0x0D \<and> data t ! (p t + 1) = CHR 0x0A
           then set_p (p t + 2) t
           else t)"

text \<open>
  The case \<^verbatim>\<open>'='\<close> of the tag switch. The slice \<^verbatim>\<open>tag[1 : len(tag)-1]\<close> panics on the
  one-character tag \<^verbatim>\<open>=\<close>.
\<close>

definition metaTag :: "string \<Rightarrow> template \<Rightarrow> error + template" where
  "metaTag tag t =
     (if tag ! (length tag - 1) \<noteq> CHR ''='' then Inl (ParseError (curline t) ''Invalid meta tag'')
      else if length tag - 1 < 1 then Inl (Panic ''slice bounds out of range'')
      else
        let tag' = TrimSpace (take (length tag - 1 - 1) (drop 1 tag));
            newtags = SplitN2 (CHR '' '') tag'
        in if length newtags = 2 then Inr (set_tags (newtags ! 0) (newtags ! 1) t) else Inr t)"

text \<open>The six file names \<^verbatim>\<open>parsePartial\<close> tries, in its order.\<close>

definition filenames :: "env \<Rightarrow> template \<Rightarrow> string \<Rightarrow> string list" where
  "filenames en t name =
     [pathJoin en (dir t) name,
      pathJoin en (dir t) (name @ ''.mustache''),
      pathJoin en (dir t) (name @ ''.stache''),
      name,
      name @ ''.mustache'',
      name @ ''.stache'']"

text \<open>
  The loop of \<^verbatim>\<open>parsePartial\<close> over the file names: the first that opens, or the empty
  string \<^verbatim>\<open>filename\<close> starts with.
\<close>

fun firstOpen :: "env \<Rightarrow> string list \<Rightarrow> string" where
  "firstOpen en [] = []"
| "firstOpen en (name # rest) = (if canOpen en name then name else firstOpen en rest)"

definition append_sec :: "element \<Rightarrow> element \<Rightarrow> element" where
  "append_sec e section = SectionElement (sname section) (inverted section) (startline section) (selems section @ [e])"


text \<open>
  How one iteration of a parse loop ends: \<open>Next\<close> goes on to the next iteration,
  \<open>Leave\<close> is \<^verbatim>\<open>return nil\<close>.
\<close>

datatype 'a iter = Next 'a | Leave 'a

text \<open>
  One iteration of the loop of \<^verbatim>\<open>parse\<close>. The two functions it calls, \<^verbatim>\<open>parseSection\<close> and
  \<^verbatim>\<open>parsePartial\<close>, are the parameters \<open>pSection\<close> and \<open>pPartial\<close>.
\<close>

definition parseIter ::
  "(element \<Rightarrow> template \<Rightarrow> (template \<times> element) result) \<Rightarrow> (template \<Rightarrow> string \<Rightarrow> template result)
     \<Rightarrow> template \<Rightarrow> template iter result" where
  "parseIter pSection pPartial t =
     (case readString (otag t) t of
        Inl e \<Rightarrow> Fail e
      | Inr (txt, eof, t1) \<Rightarrow>
          if eof then Return (Leave (append_elem (TextElement txt) t1))
          else
            let txt' = take (length txt - length (otag t1)) txt;
                t2 = append_elem (TextElement txt') t1
            in (case readTag t2 of
                  Inl e \<Rightarrow> Fail e
                | Inr (tag, t3) \<Rightarrow>
                    if tag ! 0 = CHR ''!'' then Return (Next t3)
                    else if tag ! 0 = CHR ''#'' \<or> tag ! 0 = CHR ''^'' then
                      (let name = TrimSpace (drop 1 tag);
                           t4 = skipNewline t3;
                           se = SectionElement name (tag ! 0 = CHR ''^'') (curline t4) []
                       in (case pSection se t4 of
                             OutOfFuel \<Rightarrow> OutOfFuel
                           | Fail e \<Rightarrow> Fail e
                           | Return (t5, se') \<Rightarrow> Return (Next (append_elem se' t5))))
                    else if tag ! 0 = CHR ''/'' then Fail (ParseError (curline t3) ''unmatched close tag'')
                    else if tag ! 0 = CHR ''>'' then
                      (let name = TrimSpace (drop 1 tag)
                       in (case pPartial t3 name of
                             OutOfFuel \<Rightarrow> OutOfFuel
                           | Fail e \<Rightarrow> Fail e
                           | Return partial \<Rightarrow> Return (Next (append_elem (TemplateElement partial) t3))))
                    else if tag ! 0 = CHR ''='' then
                      (case metaTag tag t3 of
                         Inl e \<Rightarrow> Fail e
                       | Inr t4 \<Rightarrow> Return (Next t4))
                    else if tag ! 0 = CHR ''{'' then
                      (if tag ! (length tag - 1) = CHR ''}''
                       then Return (Next (append_elem (VarElement (take (length tag - 1 - 1) (drop 1 tag)) True) t3))
                       else Return (Next t3))
                    else Return (Next (append_elem (VarElement tag False) t3))))"

text \<open>
  One iteration of the loop of \<^verbatim>\<open>parseSection\<close>, which fills \<open>section\<close> and returns it with
  the template.
\<close>

definition parseSectionIter ::
  "(element \<Rightarrow> template \<Rightarrow> (template \<times> element) result) \<Rightarrow> (template \<Rightarrow> string \<Rightarrow> template result)
     \<Rightarrow> element \<Rightarrow> template \<Rightarrow> (template \<times> element) iter result" where
  "parseSectionIter pSection pPartial section t =
     (case readString (otag t) t of
        Inl e \<Rightarrow> Fail e
      | Inr (txt, eof, t1) \<Rightarrow>
          if eof
          then Fail (ParseError (startline section) (''Section '' @ sname section @ '' has no closing tag''))
          else
            let txt' = take (length txt - length (otag t1)) txt;
                section1 = append_sec (TextElement txt') section
            in (case readTag t1 of
                  Inl e \<Rightarrow> Fail e
                | Inr (tag, t3) \<Rightarrow>
                    if tag ! 0 = CHR ''!'' then Return (Next (t3, section1))
                    else if tag ! 0 = CHR ''#'' \<or> tag ! 0 = CHR ''^'' then
                      (let name = TrimSpace (drop 1 tag);
                           t4 = skipNewline t3;
                           se = SectionElement name (tag ! 0 = CHR ''^'') (curline t4) []
                       in (case pSection se t4 of
                             OutOfFuel \<Rightarrow> OutOfFuel
                           | Fail e \<Rightarrow> Fail e
                           | Return (t5, se') \<Rightarrow> Return (Next (t5, append_sec se' section1))))
                    else if tag ! 0 = CHR ''/'' then
                      (let name = TrimSpace (drop 1 tag)
                       in if name \<noteq> sname section1
                          then Fail (ParseError (curline t3) (''interleaved closing tag: '' @ name))
                          else Return (Leave (t3, section1)))
                    else if tag ! 0 = CHR ''>'' then
                      (let name = TrimSpace (drop 1 tag)
                       in (case pPartial t3 name of
                             OutOfFuel \<Rightarrow> OutOfFuel
                           | Fail e \<Rightarrow> Fail e
                           | Return partial \<Rightarrow> Return (Next (t3, append_sec (TemplateElement partial) section1))))
                    else if tag ! 0 = CHR ''='' then
                      (case metaTag tag t3 of
                         Inl e \<Rightarrow> Fail e
                       | Inr t4 \<Rightarrow> Return (Next (t4, section1)))
                    else if tag ! 0 = CHR ''{'' then
                      (if tag ! (length tag - 1) = CHR ''}''
                       then Return (Next (t3, append_sec (VarElement (take (length tag - 1 - 1) (drop 1 tag)) True) section1))
                       else Return (Next (t3, section1)))
                    else Return (Next (t3, append_sec (VarElement tag False) section1))))"

text \<open>
  \<^verbatim>\<open>parse\<close>, \<^verbatim>\<open>parseSection\<close>, \<^verbatim>\<open>parsePartial\<close> and \<^verbatim>\<open>ParseFile\<close> call one another. An
  iteration of either parse loop takes one unit of fuel, and the calls made in it get what is
  left.
\<close>

fun parse :: "nat \<Rightarrow> env \<Rightarrow> template \<Rightarrow> template result"
and parseSection :: "nat \<Rightarrow> env \<Rightarrow> element \<Rightarrow> template \<Rightarrow> (template \<times> element) result"
and parsePartial :: "nat \<Rightarrow> env \<Rightarrow> template \<Rightarrow> string \<Rightarrow> template result"
and ParseFile :: "nat \<Rightarrow> env \<Rightarrow> string \<Rightarrow> template result"
where
  "parse 0 en t = OutOfFuel"
| "parse (Suc n) en t =
     (case parseIter (\<lambda>se t'. parseSection n en se t') (\<lambda>t' name. parsePartial n en t' name) t of
        OutOfFuel \<Rightarrow> OutOfFuel
      | Fail e \<Rightarrow> Fail e
      | Return (Leave t') \<Rightarrow> Return t'
      | Return (Next t') \<Rightarrow> parse n en t')"
| "parseSection 0 en section t = OutOfFuel"
| "parseSection (Suc n) en section t =
     (case parseSectionIter (\<lambda>se t'. parseSection n en se t') (\<lambda>t' name. parsePartial n en t' name) section t of
        OutOfFuel \<Rightarrow> OutOfFuel
      | Fail e \<Rightarrow> Fail e
      | Return (Leave r) \<Rightarrow> Return r
      | Return (Next (t', section')) \<Rightarrow> parseSection n en section' t')"
| "parsePartial n en t name =
     (let filename = firstOpen en (filenames en t name)
      in if filename = [] then Fail (CouldNotFindPartial name)
         else ParseFile n en filename)"
| "ParseFile n en filename =
     (case readFile en filename of
        Inl msg \<Rightarrow> Fail (ReadFileError msg)
      | Inr d \<Rightarrow> parse n en (Template d ''{{'' ''}}'' 0 1 (pathSplitDir filename) []))"

definition ParseString :: "nat \<Rightarrow> env \<Rightarrow> string \<Rightarrow> template result" where
  "ParseString n en d = parse n en (Template d ''{{'' ''}}'' 0 1 (cwd en) [])"

declare parse.simps [simp del] parseSection.simps [simp del]
  parsePartial.simps [simp del] ParseFile.simps [simp del]

section \<open>One-call rendering\<close>

text \<open>Decimal digits of a line number, as \<^verbatim>\<open>%d\<close> prints it.\<close>

function decimal :: "nat \<Rightarrow> string" where
  "decimal n = (if n < 10 then [char_of (48 + n)] else decimal (n div 10) @ [char_of (48 + n mod 10)])"
  by pat_completeness auto
termination
  by (relation "measure id") auto

declare decimal.simps [simp del]

text \<open>
  The text of an error, \<^verbatim>\<open>err.Error()\<close>. The partial's name is printed with \<^verbatim>\<open>%q\<close>,
  which is the environment's \<open>quoted\<close>.
\<close>

fun Error :: "env \<Rightarrow> error \<Rightarrow> string" where
  "Error en (ParseError line message) = ''line '' @ decimal line @ '': '' @ message"
| "Error en (CouldNotFindPartial name) = ''Could not find partial '' @ quoted en name"
| "Error en (ReadFileError msg) = msg"
| "Error en (Panic msg) = msg"

text \<open>
  The function \<^verbatim>\<open>Render(data, context...)\<close>: a parse error's text is returned as if it were
  the output; a panic of the parse or of the render is not caught.
\<close>

definition Render :: "nat \<Rightarrow> env \<Rightarrow> (val \<Rightarrow> string) \<Rightarrow> string \<Rightarrow> val list \<Rightarrow> string result" where
  "Render n en sprint d context =
     (case ParseString n en d of
        OutOfFuel \<Rightarrow> OutOfFuel
      | Fail (Panic msg) \<Rightarrow> Fail (Panic msg)
      | Fail err \<Rightarrow> Return (Error en err)
      | Return t \<Rightarrow>
          (case Template_Render sprint t context of
             Inl e \<Rightarrow> Fail e
           | Inr out \<Rightarrow> Return out))"


section \<open>Fixtures for the examples\<close>

text \<open>
  \<^verbatim>\<open>path.Join\<close> of a directory, empty or clean and given with or without its final slash,
  and a clean relative name that is not empty.
\<close>

definition joinPath :: "string \<Rightarrow> string \<Rightarrow> string" where
  "joinPath d n = (if d = [] then n else if last d = CHR ''/'' then d @ n else d @ ''/'' @ n)"

text \<open>
  \<^verbatim>\<open>%q\<close> on a name of printable characters with no double quote and no backslash in it:
  the name between double quotes.
\<close>

definition quotedPlain :: "string \<Rightarrow> string" where
  "quotedPlain s = [CHR 0x22] @ s @ [CHR 0x22]"

text \<open>An environment with no file at all.\<close>

definition noFiles :: env where
  "noFiles =
     \<lparr> canOpen = (\<lambda>f. False),
       readFile = (\<lambda>f. Inl ''no such file or directory''),
       pathJoin = joinPath,
       cwd = [],
       quoted = quotedPlain \<rparr>"

text \<open>
  A directory \<^verbatim>\<open>tpl\<close> with the page \<^verbatim>\<open>tpl/page\<close>, whose text is \<^verbatim>\<open>{{>header}}\<close>, the page
  \<^verbatim>\<open>tpl/list\<close>, whose text is \<^verbatim>\<open>{{#s}}{{>header}}{{/s}}\<close>, and the partial
  \<^verbatim>\<open>tpl/header.mustache\<close>, whose text is \<^verbatim>\<open>Hi\<close>; there is no file \<^verbatim>\<open>tpl/header\<close>.
\<close>

definition tplFiles :: env where
  "tplFiles =
     \<lparr> canOpen = (\<lambda>f. f = ''tpl/page'' \<or> f = ''tpl/list'' \<or> f = ''tpl/header.mustache''),
       readFile = (\<lambda>f. if f = ''tpl/page'' then Inr ''{{>header}}''
                        else if f = ''tpl/list'' then Inr ''{{#s}}{{>header}}{{/s}}''
                        else if f = ''tpl/header.mustache'' then Inr ''Hi''
                        else Inl ''no such file or directory''),
       pathJoin = joinPath,
       cwd = [],
       quoted = quotedPlain \<rparr>"

text \<open>A file \<^verbatim>\<open>loop\<close> whose text, \<^verbatim>\<open>{{>loop}}\<close>, includes the file itself.\<close>

definition loopFiles :: env where
  "loopFiles =
     \<lparr> canOpen = (\<lambda>f. f = ''loop''),
       readFile = (\<lambda>f. if f = ''loop'' then Inr ''{{>loop}}'' else Inl ''no such file or directory''),
       pathJoin = joinPath,
       cwd = [],
       quoted = quotedPlain \<rparr>"

text \<open>
  What \<^verbatim>\<open>fmt.Sprint\<close> prints for a string, held directly or in an interface: the string
  itself. The examples print no other kind, for which this stand-in prints nothing.
\<close>

fun sprintStr :: "val \<Rightarrow> string" where
  "sprintStr (VStr s) = s"
| "sprintStr (VIface v) = sprintStr v"
| "sprintStr v = []"

section \<open>Predicates and data of the properties\<close>

text \<open>The marker \<open>s\<close> stands in \<open>txt\<close> at index \<open>k\<close>.\<close>

definition occursAt :: "string \<Rightarrow> string \<Rightarrow> nat \<Rightarrow> bool" where
  "occursAt s txt k = (k + length s \<le> length txt \<and> take (length s) (drop k txt) = s)"

text \<open>
  The data of the examples: \<^verbatim>\<open>{a: {b: "x"}}\<close> as a
  \<^verbatim>\<open>map[string]interface{}\<close> whose entries are interface values.
\<close>

definition data_ab :: val where
  "data_ab = VMap [(''a'', VIface (VMap [(''b'', VIface (VStr ''x''))]))]"

text \<open>The five substitutions of one character, as \<^verbatim>\<open>htmlEscape\<close> makes them in one pass.\<close>

fun escapeChar :: "char \<Rightarrow> string" where
  "escapeChar c =
     (if c = CHR ''&'' then esc_amp
      else if c = CHR 0x22 then esc_quot
      else if c = CHR 0x27 then esc_apos
      else if c = CHR ''<'' then esc_lt
      else if c = CHR ''>'' then esc_gt
      else [c])"

text \<open>
  The data of the nested example: a root frame \<^verbatim>\<open>{n: "outer", list: [item]}\<close> whose list
  holds the item \<^verbatim>\<open>{n: "inner", flag: true}\<close>.
\<close>

definition item_inner :: val where
  "item_inner = VMap [(''n'', VIface (VStr ''inner'')), (''flag'', VIface (VBool True))]"

definition root_outer :: val where
  "root_outer = VMap [(''n'', VIface (VStr ''outer'')), (''list'', VIface (VSlice [VIface item_inner]))]"

text \<open>
  Whether rendering an element reaches a section element: sections themselves, and partials
  whose template holds one. \<open>literalText\<close> is the text of the text elements, partials inlined.
\<close>

fun containsSection :: "element \<Rightarrow> bool"
and templateContainsSection :: "template \<Rightarrow> bool" where
  "containsSection (TextElement t) = False"
| "containsSection (VarElement name r) = False"
| "containsSection (SectionElement name invd sl es) = True"
| "containsSection (TemplateElement t) = templateContainsSection t"
| "templateContainsSection (Template d ot ct pos cl di es) = list_ex containsSection es"

fun literalText :: "element \<Rightarrow> string"
and templateLiteralText :: "template \<Rightarrow> string" where
  "literalText (TextElement t) = t"
| "literalText (VarElement name r) = []"
| "literalText (SectionElement name invd sl es) = []"
| "literalText (TemplateElement t) = templateLiteralText t"
| "templateLiteralText (Template d ot ct pos cl di es) = concat (map literalText es)"

text \<open>Both delimiters are non-empty strings.\<close>

definition delimitersNonEmpty :: "template \<Rightarrow> bool" where
  "delimitersNonEmpty t = (otag t \<noteq> [] \<and> ctag t \<noteq> [])"

section \<open>More fuel does not change a parse\<close>

text \<open>
  A parse that ends within its fuel, with a template, an error or a panic, ends the same way
  with any larger fuel: the fuel only bounds how far the model follows the Go code.
\<close>


lemma parseIter_mono:
  assumes pS: "\<And>se t0. pS se t0 \<noteq> OutOfFuel \<Longrightarrow> pS' se t0 = pS se t0"
    and pP: "\<And>t0 nm. pP t0 nm \<noteq> OutOfFuel \<Longrightarrow> pP' t0 nm = pP t0 nm"
    and r: "parseIter pS pP t \<noteq> OutOfFuel"
  shows "parseIter pS' pP' t = parseIter pS pP t"
proof (cases "readString (otag t) t")
  case (Inl e)
  then show ?thesis by (simp add: parseIter_def)
next
  case (Inr x)
  obtain tx eof t1 where x: "x = (tx, eof, t1)" by (cases x)
  show ?thesis
  proof (cases eof)
    case True
    with Inr x show ?thesis by (simp add: parseIter_def)
  next
    case False
    note rs = Inr x False
    show ?thesis
    proof (cases "readTag (append_elem (TextElement (take (length tx - length (otag t1)) tx)) t1)")
      case (Inl e)
      with rs show ?thesis by (simp add: parseIter_def Let_def)
    next
      case (Inr y)
      obtain tag t3 where y: "y = (tag, t3)" by (cases y)
      note rt = Inr y
      show ?thesis
      proof (cases "tag ! 0 = CHR ''!''")
        case True
        with rs rt show ?thesis by (simp add: parseIter_def Let_def)
      next
        case nb: False
        show ?thesis
        proof (cases "tag ! 0 = CHR ''#'' \<or> tag ! 0 = CHR ''^''")
          case True
          let ?se = "SectionElement (TrimSpace (drop 1 tag)) (tag ! 0 = CHR ''^'') (curline (skipNewline t3)) []"
          have ne: "pS ?se (skipNewline t3) \<noteq> OutOfFuel"
            using r rs rt nb True by (auto simp: parseIter_def Let_def split: result.splits)
          show ?thesis
            using rs rt nb True pS [OF ne] by (auto simp: parseIter_def Let_def)
        next
          case ns: False
          show ?thesis
          proof (cases "tag ! 0 = CHR ''>''")
            case True
            have ne: "pP t3 (TrimSpace (drop 1 tag)) \<noteq> OutOfFuel"
              using r rs rt nb ns True by (auto simp: parseIter_def Let_def split: result.splits)
            show ?thesis
              using rs rt nb ns True pP [OF ne] by (auto simp: parseIter_def Let_def)
          next
            case False
            with rs rt nb ns show ?thesis by (auto simp: parseIter_def Let_def)
          qed
        qed
      qed
    qed
  qed
qed

lemma parseSectionIter_mono:
  assumes pS: "\<And>se t0. pS se t0 \<noteq> OutOfFuel \<Longrightarrow> pS' se t0 = pS se t0"
    and pP: "\<And>t0 nm. pP t0 nm \<noteq> OutOfFuel \<Longrightarrow> pP' t0 nm = pP t0 nm"
    and r: "parseSectionIter pS pP sec t \<noteq> OutOfFuel"
  shows "parseSectionIter pS' pP' sec t = parseSectionIter pS pP sec t"
proof (cases "readString (otag t) t")
  case (Inl e)
  then show ?thesis by (simp add: parseSectionIter_def)
next
  case (Inr x)
  obtain tx eof t1 where x: "x = (tx, eof, t1)" by (cases x)
  show ?thesis
  proof (cases eof)
    case True
    with Inr x show ?thesis by (simp add: parseSectionIter_def)
  next
    case False
    note rs = Inr x False
    show ?thesis
    proof (cases "readTag t1")
      case (Inl e)
      with rs show ?thesis by (simp add: parseSectionIter_def Let_def)
    next
      case (Inr y)
      obtain tag t3 where y: "y = (tag, t3)" by (cases y)
      note rt = Inr y
      show ?thesis
      proof (cases "tag ! 0 = CHR ''!''")
        case True
        with rs rt show ?thesis by (simp add: parseSectionIter_def Let_def)
      next
        case nb: False
        show ?thesis
        proof (cases "tag ! 0 = CHR ''#'' \<or> tag ! 0 = CHR ''^''")
          case True
          let ?se = "SectionElement (TrimSpace (drop 1 tag)) (tag ! 0 = CHR ''^'') (curline (skipNewline t3)) []"
          have ne: "pS ?se (skipNewline t3) \<noteq> OutOfFuel"
            using r rs rt nb True by (auto simp: parseSectionIter_def Let_def split: result.splits)
          show ?thesis
            using rs rt nb True pS [OF ne] by (auto simp: parseSectionIter_def Let_def)
        next
          case ns: False
          show ?thesis
          proof (cases "tag ! 0 = CHR ''>''")
            case True
            have ne: "pP t3 (TrimSpace (drop 1 tag)) \<noteq> OutOfFuel"
              using r rs rt nb ns True by (auto simp: parseSectionIter_def Let_def split: result.splits)
            show ?thesis
              using rs rt nb ns True pP [OF ne] by (auto simp: parseSectionIter_def Let_def)
          next
            case False
            with rs rt nb ns show ?thesis by (auto simp: parseSectionIter_def Let_def)
          qed
        qed
      qed
    qed
  qed
qed


lemma fuel_step:
  "(\<forall>t. parse n en t \<noteq> OutOfFuel \<longrightarrow> parse (Suc n) en t = parse n en t)
   \<and> (\<forall>sec t. parseSection n en sec t \<noteq> OutOfFuel \<longrightarrow> parseSection (Suc n) en sec t = parseSection n en sec t)
   \<and> (\<forall>t name. parsePartial n en t name \<noteq> OutOfFuel \<longrightarrow> parsePartial (Suc n) en t name = parsePartial n en t name)
   \<and> (\<forall>filename. ParseFile n en filename \<noteq> OutOfFuel \<longrightarrow> ParseFile (Suc n) en filename = ParseFile n en filename)"
proof (induction n)
  case 0
  show ?case by (auto simp: Let_def parse.simps parseSection.simps parsePartial.simps ParseFile.simps split: sum.splits)
next
  case (Suc n)
  have pS: "\<And>se t0. parseSection n en se t0 \<noteq> OutOfFuel \<Longrightarrow> parseSection (Suc n) en se t0 = parseSection n en se t0"
    using Suc by blast
  have pP: "\<And>t0 nm. parsePartial n en t0 nm \<noteq> OutOfFuel \<Longrightarrow> parsePartial (Suc n) en t0 nm = parsePartial n en t0 nm"
    using Suc by blast
  have pa: "\<And>t0. parse n en t0 \<noteq> OutOfFuel \<Longrightarrow> parse (Suc n) en t0 = parse n en t0"
    using Suc by blast
  have a: "parse (Suc (Suc n)) en t = parse (Suc n) en t" if ne: "parse (Suc n) en t \<noteq> OutOfFuel" for t
  proof -
    let ?it = "parseIter (\<lambda>se t'. parseSection n en se t') (\<lambda>t' name. parsePartial n en t' name) t"
    note low = parse.simps(2) [of n en t]
    note top = parse.simps(2) [of "Suc n" en t]
    have i: "?it \<noteq> OutOfFuel" using ne by (auto simp: low)
    have e: "parseIter (\<lambda>se t'. parseSection (Suc n) en se t') (\<lambda>t' name. parsePartial (Suc n) en t' name) t = ?it"
      by (rule parseIter_mono [OF pS pP i])
    show ?thesis
    proof (cases ?it)
      case OutOfFuel
      with i show ?thesis by simp
    next
      case (Fail x)
      with e show ?thesis by (simp add: low top)
    next
      case (Return it)
      show ?thesis
      proof (cases it)
        case (Next t2)
        with Return ne have "parse n en t2 \<noteq> OutOfFuel" by (simp add: low)
        from pa [OF this] Return Next e show ?thesis by (simp add: low top)
      next
        case (Leave t2)
        with Return e show ?thesis by (simp add: low top)
      qed
    qed
  qed
  have b: "parseSection (Suc (Suc n)) en sec t = parseSection (Suc n) en sec t"
    if ne: "parseSection (Suc n) en sec t \<noteq> OutOfFuel" for sec t
  proof -
    let ?it = "parseSectionIter (\<lambda>se t'. parseSection n en se t') (\<lambda>t' name. parsePartial n en t' name) sec t"
    note low = parseSection.simps(2) [of n en sec t]
    note top = parseSection.simps(2) [of "Suc n" en sec t]
    have i: "?it \<noteq> OutOfFuel" using ne by (auto simp: low)
    have e: "parseSectionIter (\<lambda>se t'. parseSection (Suc n) en se t') (\<lambda>t' name. parsePartial (Suc n) en t' name) sec t = ?it"
      by (rule parseSectionIter_mono [OF pS pP i])
    show ?thesis
    proof (cases ?it)
      case OutOfFuel
      with i show ?thesis by simp
    next
      case (Fail x)
      with e show ?thesis by (simp add: low top)
    next
      case (Return it)
      show ?thesis
      proof (cases it)
        case (Next x)
        obtain t2 s2 where x: "x = (t2, s2)" by (cases x)
        with Return Next ne have "parseSection n en s2 t2 \<noteq> OutOfFuel" by (simp add: low)
        from pS [OF this] Return Next x e show ?thesis by (simp add: low top)
      next
        case (Leave x)
        with Return e show ?thesis by (simp add: low top)
      qed
    qed
  qed
  have d: "ParseFile (Suc (Suc n)) en filename = ParseFile (Suc n) en filename"
    if ne: "ParseFile (Suc n) en filename \<noteq> OutOfFuel" for filename
  proof (cases "readFile en filename")
    case (Inl msg)
    then show ?thesis by (simp add: ParseFile.simps)
  next
    case (Inr dt)
    with ne have "parse (Suc n) en (Template dt ''{{'' ''}}'' 0 1 (pathSplitDir filename) []) \<noteq> OutOfFuel"
      by (simp add: ParseFile.simps)
    from a [OF this] Inr show ?thesis by (simp add: ParseFile.simps)
  qed
  have c: "parsePartial (Suc (Suc n)) en t name = parsePartial (Suc n) en t name"
    if ne: "parsePartial (Suc n) en t name \<noteq> OutOfFuel" for t name
  proof (cases "firstOpen en (filenames en t name) = []")
    case True
    then show ?thesis by (simp add: parsePartial.simps)
  next
    case False
    with ne have "ParseFile (Suc n) en (firstOpen en (filenames en t name)) \<noteq> OutOfFuel"
      by (simp add: Let_def parsePartial.simps)
    from d [OF this] False show ?thesis by (simp add: Let_def parsePartial.simps)
  qed
  show ?case using a b c d by blast
qed

lemma parse_more_fuel:
  "parse n en t \<noteq> OutOfFuel \<Longrightarrow> parse (n + k) en t = parse n en t"
proof (induction k)
  case 0
  show ?case by simp
next
  case (Suc k)
  then have "parse (n + k) en t \<noteq> OutOfFuel" by simp
  then have "parse (Suc (n + k)) en t = parse (n + k) en t"
    using fuel_step [of "n + k" en] by blast
  with Suc show ?case by simp
qed

lemma parseSection_more_fuel:
  "parseSection n en sec t \<noteq> OutOfFuel \<Longrightarrow> parseSection (n + k) en sec t = parseSection n en sec t"
proof (induction k)
  case 0
  show ?case by simp
next
  case (Suc k)
  then have "parseSection (n + k) en sec t \<noteq> OutOfFuel" by simp
  then have "parseSection (Suc (n + k)) en sec t = parseSection (n + k) en sec t"
    using fuel_step [of "n + k" en] by blast
  with Suc show ?case by simp
qed

lemma parsePartial_more_fuel:
  "parsePartial n en t name \<noteq> OutOfFuel \<Longrightarrow> parsePartial (n + k) en t name = parsePartial n en t name"
proof (induction k)
  case 0
  show ?case by simp
next
  case (Suc k)
  then have "parsePartial (n + k) en t name \<noteq> OutOfFuel" by simp
  then have "parsePartial (Suc (n + k)) en t name = parsePartial (n + k) en t name"
    using fuel_step [of "n + k" en] by blast
  with Suc show ?case by simp
qed

lemma ParseFile_more_fuel:
  "ParseFile n en f \<noteq> OutOfFuel \<Longrightarrow> ParseFile (n + k) en f = ParseFile n en f"
proof (induction k)
  case 0
  show ?case by simp
next
  case (Suc k)
  then have "ParseFile (n + k) en f \<noteq> OutOfFuel" by simp
  then have "ParseFile (Suc (n + k)) en f = ParseFile (n + k) en f"
    using fuel_step [of "n + k" en] by blast
  with Suc show ?case by simp
qed

lemma ParseString_more_fuel:
  "ParseString n en d \<noteq> OutOfFuel \<Longrightarrow> ParseString (n + k) en d = ParseString n en d"
  by (simp add: ParseString_def parse_more_fuel)

lemma Render_more_fuel:
  "Render n en sprint d context \<noteq> OutOfFuel \<Longrightarrow>
     Render (n + k) en sprint d context = Render n en sprint d context"
proof -
  assume a: "Render n en sprint d context \<noteq> OutOfFuel"
  then have "ParseString n en d \<noteq> OutOfFuel"
    by (auto simp: Render_def)
  then have "ParseString (n + k) en d = ParseString n en d"
    by (rule ParseString_more_fuel)
  then show ?thesis by (simp add: Render_def)
qed

section \<open>The scanner's contract\<close>

lemma occursAt_length: "occursAt s txt k \<Longrightarrow> k + length s \<le> length txt"
  by (simp add: occursAt_def)

lemma occursAt_nth:
  "i + length s \<le> length dat \<Longrightarrow> occursAt s dat i = (\<forall>j<length s. s ! j = dat ! (i + j))"
  unfolding occursAt_def by (auto simp: list_eq_iff_nth_eq)

lemma match_iff:
  assumes "s \<noteq> []" and "i + length s \<le> length dat"
  shows "(dat ! i = s ! 0 \<and> list_all (\<lambda>j. s ! j = dat ! (i + j)) [1..<length s]) = occursAt s dat i"
proof -
  have "(\<forall>j<length s. s ! j = dat ! (i + j)) =
        (s ! 0 = dat ! i \<and> (\<forall>j. 1 \<le> j \<and> j < length s \<longrightarrow> s ! j = dat ! (i + j)))"
  proof
    assume a: "\<forall>j<length s. s ! j = dat ! (i + j)"
    from assms(1) have "0 < length s" by simp
    with a have "s ! 0 = dat ! (i + 0)" by blast
    with a show "s ! 0 = dat ! i \<and> (\<forall>j. 1 \<le> j \<and> j < length s \<longrightarrow> s ! j = dat ! (i + j))" by simp
  next
    assume b: "s ! 0 = dat ! i \<and> (\<forall>j. 1 \<le> j \<and> j < length s \<longrightarrow> s ! j = dat ! (i + j))"
    show "\<forall>j<length s. s ! j = dat ! (i + j)"
    proof (intro allI impI)
      fix j assume "j < length s"
      with b show "s ! j = dat ! (i + j)" by (cases j) auto
    qed
  qed
  then show ?thesis
    using assms(2) by (auto simp: occursAt_nth list_all_iff)
qed

lemma count_newlines_step:
  assumes "i < length dat" and "i < k"
  shows "count_list (take (Suc k - i) (drop i dat)) c =
         (if dat ! i = c then 1 else 0) + count_list (take (Suc k - Suc i) (drop (Suc i) dat)) c"
proof -
  have d: "drop i dat = dat ! i # drop (Suc i) dat"
    using assms(1) by (simp add: Cons_nth_drop_Suc)
  have k: "Suc k - i = Suc (Suc k - Suc i)"
    using assms(2) by simp
  show ?thesis by (simp add: d k)
qed

lemma readLoop_found:
  assumes "s \<noteq> []"
  shows "occursAt s dat k \<Longrightarrow> i \<le> k \<Longrightarrow> (\<forall>j. i \<le> j \<and> j < k \<longrightarrow> \<not> occursAt s dat j) \<Longrightarrow>
         readLoop s dat i nl = Inr (Some (k + length s, nl + count_list (take (Suc k - i) (drop i dat)) (CHR 0x0A)))"
proof (induction "k - i" arbitrary: i nl)
  case 0
  then have ik: "i = k" by simp
  have len: "k + length s \<le> length dat" using 0 by (simp add: occursAt_length)
  then have lt: "k < length dat" using assms by (cases s) auto
  have m: "dat ! k = s ! 0 \<and> list_all (\<lambda>j. s ! j = dat ! (k + j)) [1..<length s]"
    using match_iff [OF assms len] 0 by simp
  have d: "drop k dat = dat ! k # drop (Suc k) dat"
    using lt by (simp add: Cons_nth_drop_Suc)
  show ?case
    using len lt m assms by (simp add: readLoop.simps [of s dat k] ik d)
next
  case (Suc n)
  then have ik: "i < k" by simp
  have len: "k + length s \<le> length dat" using Suc by (simp add: occursAt_length)
  then have leni: "i + length s \<le> length dat" using ik by simp
  have lt: "i < length dat" using leni assms by (cases s) auto
  have no: "\<not> occursAt s dat i" using Suc ik by simp
  then have nm: "\<not> (dat ! i = s ! 0 \<and> list_all (\<lambda>j. s ! j = dat ! (i + j)) [1..<length s])"
    using match_iff [OF assms leni] by simp
  have ih: "readLoop s dat (Suc i) nl' =
            Inr (Some (k + length s, nl' + count_list (take (Suc k - Suc i) (drop (Suc i) dat)) (CHR 0x0A)))" for nl'
    using Suc.hyps(1) [of "Suc i" nl'] Suc.hyps(2) Suc.prems ik by simp
  have step: "readLoop s dat i nl =
              readLoop s dat (Suc i) (if dat ! i = CHR 0x0A then nl + 1 else nl)"
    using leni lt nm assms by (auto simp: readLoop.simps [of s dat i] Let_def)
  show ?case
    by (simp add: step ih count_newlines_step [OF lt ik])
qed

lemma readLoop_eof:
  assumes "s \<noteq> []"
  shows "(\<forall>j\<ge>i. \<not> occursAt s dat j) \<Longrightarrow> readLoop s dat i nl = Inr None"
proof (induction "length dat - i" arbitrary: i nl rule: less_induct)
  case less
  show ?case
  proof (cases "i + length s > length dat")
    case True
    then show ?thesis by (simp add: readLoop.simps [of s dat i])
  next
    case False
    then have leni: "i + length s \<le> length dat" by simp
    then have lt: "i < length dat" using assms by (cases s) auto
    have "\<not> occursAt s dat i" using less.prems by simp
    then have nm: "\<not> (dat ! i = s ! 0 \<and> list_all (\<lambda>j. s ! j = dat ! (i + j)) [1..<length s])"
      using match_iff [OF assms leni] by simp
    have step: "readLoop s dat i nl =
                readLoop s dat (Suc i) (if dat ! i = CHR 0x0A then nl + 1 else nl)"
      using leni lt nm assms by (auto simp: readLoop.simps [of s dat i] Let_def)
    have "readLoop s dat (Suc i) nl' = Inr None" for nl'
      using less.hyps [of "Suc i" nl'] less.prems lt by simp
    then show ?thesis by (simp add: step)
  qed
qed


lemma occursAt_drop:
  "p0 \<le> length dat \<Longrightarrow> occursAt s (drop p0 dat) k = occursAt s dat (p0 + k)"
  by (auto simp: occursAt_def add.commute)

lemma readString_found:
  assumes s: "s \<noteq> []" and p: "p t \<le> length (data t)"
    and split: "drop (p t) (data t) = pre @ s @ post"
    and first: "\<forall>k<length pre. \<not> occursAt s (pre @ s @ post) k"
  shows "readString s t =
           Inr (pre @ s, False,
                set_curline (curline t + count_list (pre @ [hd s]) (CHR 0x0A))
                  (set_p (p t + length pre + length s) t))"
proof -
  let ?k = "p t + length pre"
  have here: "occursAt s (pre @ s @ post) (length pre)"
    by (simp add: occursAt_def)
  then have occ: "occursAt s (data t) ?k"
    using occursAt_drop [OF p, of s "length pre"] split by simp
  have none: "\<forall>j. p t \<le> j \<and> j < ?k \<longrightarrow> \<not> occursAt s (data t) j"
  proof (intro allI impI)
    fix j assume j: "p t \<le> j \<and> j < ?k"
    then have "j - p t < length pre" by auto
    with first have "\<not> occursAt s (pre @ s @ post) (j - p t)" by blast
    then show "\<not> occursAt s (data t) j"
      using occursAt_drop [OF p, of s "j - p t"] split j by simp
  qed
  have loop: "readLoop s (data t) (p t) 0 =
        Inr (Some (?k + length s, 0 + count_list (take (Suc ?k - p t) (drop (p t) (data t))) (CHR 0x0A)))"
    by (rule readLoop_found [OF s occ _ none]) simp
  have hd: "take (Suc (length pre)) (pre @ s @ post) = pre @ [hd s]"
    using s by (cases s) simp_all
  have cnt: "count_list (take (Suc ?k - p t) (drop (p t) (data t))) (CHR 0x0A) = count_list (pre @ [hd s]) (CHR 0x0A)"
  proof -
    have e: "Suc ?k - p t = Suc (length pre)" by simp
    show ?thesis by (simp only: e split hd)
  qed
  have tx: "take (?k + length s - p t) (drop (p t) (data t)) = pre @ s"
    by (simp add: split)
  have loop': "readLoop s (data t) (p t) 0 =
        Inr (Some (?k + length s, count_list (pre @ [hd s]) (CHR 0x0A)))"
    by (simp only: loop cnt add_0)
  show ?thesis
    by (simp only: readString_def loop' sum.case option.case prod.case tx)
qed

lemma readString_eof:
  assumes s: "s \<noteq> []" and p: "p t \<le> length (data t)"
    and never: "\<forall>k. \<not> occursAt s (drop (p t) (data t)) k"
  shows "readString s t = Inr (drop (p t) (data t), True, t)"
proof -
  have "\<forall>j\<ge>p t. \<not> occursAt s (data t) j"
  proof (intro allI impI)
    fix j assume "p t \<le> j"
    then show "\<not> occursAt s (data t) j"
      using occursAt_drop [OF p, of s "j - p t"] never by simp
  qed
  then have "readLoop s (data t) (p t) 0 = Inr None"
    by (rule readLoop_eof [OF s])
  then show ?thesis
    using p by (simp add: readString_def)
qed

lemma count_marker_newlines:
  assumes "s \<noteq> []" and "CHR 0x0A \<notin> set (tl s)"
  shows "count_list (pre @ [hd s]) (CHR 0x0A) = count_list (pre @ s) (CHR 0x0A)"
proof -
  obtain c cs where s: "s = c # cs" using assms(1) by (cases s) auto
  then have "count_list cs (CHR 0x0A) = 0" using assms(2) by (simp add: count_list_0_iff)
  then show ?thesis by (simp add: s)
qed


text \<open>
  Claim C9, as amended. For a non-empty marker and a read position inside the input:
  when the marker occurs in the remaining input, \<^verbatim>\<open>readString\<close> returns the text before the
  first occurrence followed by the marker itself (the claim says the text before it only; the
  callers cut the marker off), moves the read position just past that occurrence and adds
  to the line counter the newlines of the text before the marker and of the marker's first
  character; that is every newline consumed when the marker has no newline after its first
  character. When the marker does not occur, it returns all the remaining text with the
  end-of-input signal and leaves the template as it was.
\<close>

theorem C9_readString_contract:
  assumes "s \<noteq> []" and "p t \<le> length (data t)"
  shows "(drop (p t) (data t) = pre @ s @ post \<and> (\<forall>k<length pre. \<not> occursAt s (pre @ s @ post) k) \<longrightarrow>
            readString s t =
              Inr (pre @ s, False,
                   set_curline (curline t + count_list (pre @ [hd s]) (CHR 0x0A))
                     (set_p (p t + length pre + length s) t)))
       \<and> (drop (p t) (data t) = pre @ s @ post \<and> (\<forall>k<length pre. \<not> occursAt s (pre @ s @ post) k)
            \<and> CHR 0x0A \<notin> set (tl s) \<longrightarrow>
            readString s t =
              Inr (pre @ s, False,
                   set_curline (curline t + count_list (pre @ s) (CHR 0x0A))
                     (set_p (p t + length pre + length s) t)))
       \<and> ((\<forall>k. \<not> occursAt s (drop (p t) (data t)) k) \<longrightarrow>
            readString s t = Inr (drop (p t) (data t), True, t))"
proof (intro conjI impI)
  assume a: "drop (p t) (data t) = pre @ s @ post \<and> (\<forall>k<length pre. \<not> occursAt s (pre @ s @ post) k)"
  show "readString s t =
              Inr (pre @ s, False,
                   set_curline (curline t + count_list (pre @ [hd s]) (CHR 0x0A))
                     (set_p (p t + length pre + length s) t))"
    using readString_found [OF assms] a by blast
next
  assume a: "drop (p t) (data t) = pre @ s @ post \<and> (\<forall>k<length pre. \<not> occursAt s (pre @ s @ post) k)
            \<and> CHR 0x0A \<notin> set (tl s)"
  then have "readString s t =
              Inr (pre @ s, False,
                   set_curline (curline t + count_list (pre @ [hd s]) (CHR 0x0A))
                     (set_p (p t + length pre + length s) t))"
    using readString_found [OF assms] by blast
  then show "readString s t =
              Inr (pre @ s, False,
                   set_curline (curline t + count_list (pre @ s) (CHR 0x0A))
                     (set_p (p t + length pre + length s) t))"
    using count_marker_newlines [OF assms(1), of pre] a by simp
next
  assume "\<forall>k. \<not> occursAt s (drop (p t) (data t)) k"
  then show "readString s t = Inr (drop (p t) (data t), True, t)"
    by (rule readString_eof [OF assms])
qed

theorem C9_readString_contract_witness:
  "readString ''{{'' (Template (''ab'' @ [CHR 0x0A] @ ''{{c'') ''{{'' ''}}'' 0 1 [] []) =
     Inr (''ab'' @ [CHR 0x0A] @ ''{{'', False, Template (''ab'' @ [CHR 0x0A] @ ''{{c'') ''{{'' ''}}'' 5 2 [] [])
   \<and> readString ''{{'' (Template ''abc'' ''{{'' ''}}'' 1 1 [] []) =
     Inr (''bc'', True, Template ''abc'' ''{{'' ''}}'' 1 1 [] [])"
proof -
  let ?t = "Template (''ab'' @ [CHR 0x0A] @ ''{{c'') ''{{'' ''}}'' 0 1 [] []"
  let ?u = "Template ''abc'' ''{{'' ''}}'' 1 1 [] []"
  have m: "''{{'' \<noteq> []" by simp
  have pt: "p ?t \<le> length (data ?t)" by simp
  have pu: "p ?u \<le> length (data ?u)" by simp
  have h1: "drop (p ?t) (data ?t) = (''ab'' @ [CHR 0x0A]) @ ''{{'' @ ''c''
            \<and> (\<forall>k<length (''ab'' @ [CHR 0x0A]). \<not> occursAt ''{{'' ((''ab'' @ [CHR 0x0A]) @ ''{{'' @ ''c'') k)
            \<and> CHR 0x0A \<notin> set (tl ''{{'')"
    by (simp add: occursAt_def All_less_Suc)
  have h2: "\<forall>k. \<not> occursAt ''{{'' (drop (p ?u) (data ?u)) k"
  proof
    fix k show "\<not> occursAt ''{{'' (drop (p ?u) (data ?u)) k"
      by (cases k) (simp_all add: occursAt_def)
  qed
  have r1: "readString ''{{'' ?t =
              Inr ((''ab'' @ [CHR 0x0A]) @ ''{{'', False,
                   set_curline (curline ?t + count_list ((''ab'' @ [CHR 0x0A]) @ ''{{'') (CHR 0x0A))
                     (set_p (p ?t + length (''ab'' @ [CHR 0x0A]) + length ''{{'') ?t))"
    by (rule mp [OF C9_readString_contract [OF m pt, of "''ab'' @ [CHR 0x0A]" "''c''",
            THEN conjunct2, THEN conjunct1] h1])
  have r2: "readString ''{{'' ?u = Inr (drop (p ?u) (data ?u), True, ?u)"
    by (rule mp [OF C9_readString_contract [OF m pu, of "[]" "[]", THEN conjunct2, THEN conjunct2] h2])
  show ?thesis
    using r1 r2 by (simp add: set_curline_def set_p_def)
qed

text \<open>
  The text \<^verbatim>\<open>readString\<close> returns for the marker \<^verbatim>\<open>{{\<close> in \<^verbatim>\<open>ab{{c\<close> is \<^verbatim>\<open>ab{{\<close>, marker
  included, not the text \<^verbatim>\<open>ab\<close> that precedes the marker.
\<close>

theorem C9_text_includes_marker_counterexample:
  "readString ''{{'' (Template ''ab{{c'' ''{{'' ''}}'' 0 1 [] []) =
     Inr (''ab{{'', False, Template ''ab{{c'' ''{{'' ''}}'' 4 1 [] [])
   \<and> ''ab{{'' \<noteq> ''ab''"
  by code_simp

section \<open>Name resolution\<close>

lemma SplitN2_head_length:
  "CHR ''.'' \<in> set name \<Longrightarrow> length (SplitN2 (CHR ''.'') name ! 0) < length name"
proof -
  assume a: "CHR ''.'' \<in> set name"
  have "length (takeWhile (\<lambda>c. c \<noteq> CHR ''.'') xs) < length xs" if "CHR ''.'' \<in> set xs" for xs
    using that by (induction xs) auto
  with a show ?thesis by (simp add: SplitN2_def)
qed

lemma SplitN2_rest_length:
  "CHR ''.'' \<in> set name \<Longrightarrow> length (SplitN2 (CHR ''.'') name ! Suc 0) < length name"
proof -
  assume a: "CHR ''.'' \<in> set name"
  then have "dropWhile (\<lambda>c. c \<noteq> CHR ''.'') name \<noteq> []" by simp
  then have "length (tl (dropWhile (\<lambda>c. c \<noteq> CHR ''.'') name)) < length (dropWhile (\<lambda>c. c \<noteq> CHR ''.'') name)"
    by (cases "dropWhile (\<lambda>c. c \<noteq> CHR ''.'') name") simp_all
  also have "\<dots> \<le> length name" by (rule length_dropWhile_le)
  finally show ?thesis using a by (simp add: SplitN2_def)
qed

lemma lookup_plain:
  "name = ''.'' \<or> CHR ''.'' \<notin> set name \<Longrightarrow> lookup c name = lookupOuter name c"
  by (auto simp: lookup.simps [of c name])

lemma lookup_dotted:
  "name \<noteq> ''.'' \<Longrightarrow> CHR ''.'' \<in> set name \<Longrightarrow>
   lookup c name = lookup [lookup c (SplitN2 (CHR ''.'') name ! 0)] (SplitN2 (CHR ''.'') name ! Suc 0)"
  by (simp add: lookup.simps [of c name] Let_def)

lemma lookupCtx_dot: "lookupCtx ''.'' v = (if v = Invalid then None else Some v)"
  by (cases v) simp_all

lemma lookupOuter_dot:
  "lookupOuter ''.'' chain = (case dropWhile (\<lambda>v. v = Invalid) chain of [] \<Rightarrow> Invalid | v # rest \<Rightarrow> v)"
  by (induction chain) (simp_all add: lookupCtx_dot)

lemma SplitN2_append:
  "sep \<notin> set h \<Longrightarrow> SplitN2 sep (h @ sep # r) = [h, r]"
  by (induction h) (auto simp: SplitN2_def)

lemma lookup_head_rest:
  assumes "CHR ''.'' \<notin> set h" and "\<not> (h = [] \<and> r = [])"
  shows "lookup chain (h @ ''.'' @ r) = lookup [lookup chain h] r"
proof -
  have ne: "h @ ''.'' @ r \<noteq> ''.''" using assms(2) by (cases h) auto
  have "lookup chain (h @ ''.'' @ r) =
        lookup [lookup chain (SplitN2 (CHR ''.'') (h @ ''.'' @ r) ! 0)] (SplitN2 (CHR ''.'') (h @ ''.'' @ r) ! Suc 0)"
    by (rule lookup_dotted [OF ne]) simp
  then show ?thesis using assms(1) by (simp add: SplitN2_append)
qed


text \<open>
  Claim C3, as amended. A name with a dot, other than \<^verbatim>\<open>"."\<close>, is split at its first dot into
  head and rest; the head is resolved against the whole chain and the rest against the
  one-frame chain of that result, so the rest never reaches outer frames. The name
  \<^verbatim>\<open>"."\<close> resolves to the first frame of the chain that holds a valid value, unchanged: the
  top frame whenever that is valid (the claim says the top frame always; a chain
  whose top frame is the invalid value of a nil context is skipped to the next frame).
  \<^verbatim>\<open>{{a.b}}\<close> renders \<^verbatim>\<open>x\<close> and \<^verbatim>\<open>{{a.c}}\<close> renders nothing on \<^verbatim>\<open>{a: {b: "x"}}\<close>.
  A parse of either template ends within 10 units of fuel, so \<open>10 + k\<close> is any fuel from 10 on.
\<close>

theorem C3_dotted_names_and_self:
  "(CHR ''.'' \<notin> set h \<and> \<not> (h = [] \<and> r = []) \<longrightarrow>
      lookup chain (h @ ''.'' @ r) = lookup [lookup chain h] r)
   \<and> lookup chain ''.'' =
       (case dropWhile (\<lambda>v. v = Invalid) chain of [] \<Rightarrow> Invalid | v # rest \<Rightarrow> v)
   \<and> (v0 \<noteq> Invalid \<longrightarrow> lookup (v0 # chain) ''.'' = v0)
   \<and> Render (10 + k) noFiles sprintStr ''{{a.b}}'' [data_ab] = Return ''x''
   \<and> Render (10 + k) noFiles sprintStr ''{{a.c}}'' [data_ab] = Return []"
proof -
  have dotted: "CHR ''.'' \<notin> set h \<and> \<not> (h = [] \<and> r = []) \<longrightarrow>
      lookup chain (h @ ''.'' @ r) = lookup [lookup chain h] r"
    using lookup_head_rest [of h r chain] by blast
  have self: "\<And>c. lookup c ''.'' =
       (case dropWhile (\<lambda>v. v = Invalid) c of [] \<Rightarrow> Invalid | v # rest \<Rightarrow> v)"
    by (simp add: lookup_plain lookupOuter_dot)
  have top: "v0 \<noteq> Invalid \<longrightarrow> lookup (v0 # chain) ''.'' = v0"
    by (simp add: self)
  have "Render 10 noFiles sprintStr ''{{a.b}}'' [data_ab] = Return ''x''"
    by code_simp
  then have ex1: "Render (10 + k) noFiles sprintStr ''{{a.b}}'' [data_ab] = Return ''x''"
    using Render_more_fuel [of 10 noFiles sprintStr "''{{a.b}}''" "[data_ab]" k] by simp
  have "Render 10 noFiles sprintStr ''{{a.c}}'' [data_ab] = Return []"
    by code_simp
  then have ex2: "Render (10 + k) noFiles sprintStr ''{{a.c}}'' [data_ab] = Return []"
    using Render_more_fuel [of 10 noFiles sprintStr "''{{a.c}}''" "[data_ab]" k] by simp
  show ?thesis
    by (intro conjI) (fact dotted, fact self, fact top, fact ex1, fact ex2)
qed

theorem C3_dotted_names_and_self_witness:
  "lookup [data_ab] ''a.b'' = lookup [lookup [data_ab] ''a''] ''b''
   \<and> lookup [data_ab] ''a.b'' = VIface (VStr ''x'')
   \<and> lookup [data_ab, Invalid] ''.'' = data_ab"
proof -
  have v: "lookup [data_ab] ''a.b'' = VIface (VStr ''x'')"
    by code_simp
  have ne: "data_ab \<noteq> Invalid"
    by (simp add: data_ab_def)
  have hyp: "CHR ''.'' \<notin> set ''a'' \<and> \<not> (''a'' = [] \<and> ''b'' = [])"
    by simp
  have d: "lookup [data_ab] (''a'' @ ''.'' @ ''b'') = lookup [lookup [data_ab] ''a''] ''b''"
    by (rule mp [OF C3_dotted_names_and_self [of "''a''" "''b''" "[data_ab]" data_ab, THEN conjunct1] hyp])
  have d': "lookup [data_ab] ''a.b'' = lookup [lookup [data_ab] ''a''] ''b''"
    using d by simp
  have s: "lookup (data_ab # [Invalid]) ''.'' = data_ab"
    by (rule mp [OF C3_dotted_names_and_self [of "''a''" "''b''" "[Invalid]" data_ab,
          THEN conjunct2, THEN conjunct2, THEN conjunct1] ne])
  show ?thesis
    using d' v s by (intro conjI) assumption+
qed

theorem C3_self_skips_invalid_top_counterexample:
  "lookup [Invalid, VInt 1] ''.'' \<noteq> hd [Invalid, VInt 1]"
  by code_simp

section \<open>Variables\<close>

lemma substitute_append: "substitute c e (xs @ ys) = substitute c e xs @ substitute c e ys"
  by (induction xs) simp_all

lemma htmlEscape_Cons: "htmlEscape (x # xs) = escapeChar x @ htmlEscape xs"
  by (simp add: htmlEscape_def esc_amp_def esc_quot_def esc_apos_def esc_lt_def esc_gt_def)

lemma htmlEscape_single_pass: "htmlEscape s = concat (map escapeChar s)"
proof (induction s)
  case Nil
  show ?case by (simp add: htmlEscape_def)
next
  case (Cons x xs)
  then show ?case by (simp only: htmlEscape_Cons list.map concat.simps)
qed


lemma lookup_field:
  assumes "CHR ''.'' \<notin> set name"
  shows "lookup [VStruct fs] name = FieldByName fs name"
proof -
  from assms have n: "name \<noteq> ''.''" by auto
  have "lookup [VStruct fs] name = lookupOuter name [VStruct fs]"
    using assms by (simp add: lookup_plain)
  also have "\<dots> = FieldByName fs name"
    using n by (simp add: Let_def)
  finally show ?thesis .
qed

lemma readOnly_cases: "readOnly v = Invalid \<and> v = Invalid \<or> \<not> canInterface (readOnly v) \<and> v \<noteq> Invalid"
  by (cases v) simp_all

text \<open>
  Claim C4. A variable element emits nothing when its name resolves to the invalid value, and
  also when it resolves to a value that carries the read-only flag: the value of an unexported
  struct field, or what is reached from one. The renderer cannot read such a value:
  \<^verbatim>\<open>val.Interface()\<close> panics, the function deferred by \<^verbatim>\<open>renderElement\<close> recovers the panic,
  and nothing has been written. Otherwise the element emits the printed value, with the five
  substitutions (\<^verbatim>\<open>&\<close> first, then the double quote, the apostrophe, \<^verbatim>\<open><\<close> and \<^verbatim>\<open>>\<close>) when the
  element is not raw, and verbatim when it is raw (the triple-delimiter form). Since \<^verbatim>\<open>&\<close>
  is substituted first, the five passes amount to replacing each character once. On a struct,
  an undotted name of an unexported field emits nothing whatever the field holds.
\<close>

theorem C4_variable_element:
  "renderElement sprint (VarElement name r) chain =
     Inr (if lookup chain name = Invalid \<or> \<not> canInterface (lookup chain name) then []
          else if r then sprint (lookup chain name)
          else htmlEscape (sprint (lookup chain name)))
   \<and> htmlEscape s = concat (map escapeChar s)
   \<and> (CHR ''.'' \<notin> set name \<and> unexported name \<longrightarrow>
        renderElement sprint (VarElement name r) [VStruct fs] = Inr [])
   \<and> (CHR ''.'' \<notin> set name \<and> \<not> unexported name \<and> map_of fs name = Some v \<and> v \<noteq> Invalid \<and> canInterface v \<longrightarrow>
        renderElement sprint (VarElement name r) [VStruct fs] = Inr (if r then sprint v else htmlEscape (sprint v)))
   \<and> Render (10 + k) noFiles sprintStr ''{{v}}'' [VMap [(''v'', VIface (VStr (''<b>&'' @ [CHR 0x22, CHR 0x27])))]]
       = Return ''&lt;b&gt;&amp;&quot;&apos;''
   \<and> Render (10 + k) noFiles sprintStr ''{{{v}}}'' [VMap [(''v'', VIface (VStr (''<b>&'' @ [CHR 0x22, CHR 0x27])))]]
       = Return (''<b>&'' @ [CHR 0x22, CHR 0x27])"
proof -
  have el: "renderElement sprint (VarElement name r) chain =
     Inr (if lookup chain name = Invalid \<or> \<not> canInterface (lookup chain name) then []
          else if r then sprint (lookup chain name)
          else htmlEscape (sprint (lookup chain name)))"
    by (simp add: Let_def)
  have un: "CHR ''.'' \<notin> set name \<and> unexported name \<longrightarrow>
        renderElement sprint (VarElement name r) [VStruct fs] = Inr []"
  proof
    assume a: "CHR ''.'' \<notin> set name \<and> unexported name"
    then have l: "lookup [VStruct fs] name = FieldByName fs name" by (simp add: lookup_field)
    have "FieldByName fs name = Invalid \<or> \<not> canInterface (FieldByName fs name)"
    proof (cases "map_of fs name")
      case None
      then show ?thesis by (simp add: FieldByName_def)
    next
      case (Some x)
      with a have "FieldByName fs name = readOnly x" by (simp add: FieldByName_def)
      then show ?thesis using readOnly_cases [of x] by auto
    qed
    then show "renderElement sprint (VarElement name r) [VStruct fs] = Inr []"
      by (auto simp: Let_def l)
  qed
  have ex: "CHR ''.'' \<notin> set name \<and> \<not> unexported name \<and> map_of fs name = Some v \<and> v \<noteq> Invalid \<and> canInterface v \<longrightarrow>
        renderElement sprint (VarElement name r) [VStruct fs] = Inr (if r then sprint v else htmlEscape (sprint v))"
  proof
    assume a: "CHR ''.'' \<notin> set name \<and> \<not> unexported name \<and> map_of fs name = Some v \<and> v \<noteq> Invalid \<and> canInterface v"
    then have l: "lookup [VStruct fs] name = FieldByName fs name" by (simp add: lookup_field)
    from a have "FieldByName fs name = v" by (simp add: FieldByName_def)
    with a show "renderElement sprint (VarElement name r) [VStruct fs] = Inr (if r then sprint v else htmlEscape (sprint v))"
      by (simp add: Let_def l)
  qed
  have "Render 10 noFiles sprintStr ''{{v}}'' [VMap [(''v'', VIface (VStr (''<b>&'' @ [CHR 0x22, CHR 0x27])))]]
       = Return ''&lt;b&gt;&amp;&quot;&apos;''"
    by code_simp
  then have ex1: "Render (10 + k) noFiles sprintStr ''{{v}}'' [VMap [(''v'', VIface (VStr (''<b>&'' @ [CHR 0x22, CHR 0x27])))]]
       = Return ''&lt;b&gt;&amp;&quot;&apos;''"
    using Render_more_fuel [of 10 noFiles sprintStr "''{{v}}''" _ k] by simp
  have "Render 10 noFiles sprintStr ''{{{v}}}'' [VMap [(''v'', VIface (VStr (''<b>&'' @ [CHR 0x22, CHR 0x27])))]]
       = Return (''<b>&'' @ [CHR 0x22, CHR 0x27])"
    by code_simp
  then have ex2: "Render (10 + k) noFiles sprintStr ''{{{v}}}'' [VMap [(''v'', VIface (VStr (''<b>&'' @ [CHR 0x22, CHR 0x27])))]]
       = Return (''<b>&'' @ [CHR 0x22, CHR 0x27])"
    using Render_more_fuel [of 10 noFiles sprintStr "''{{{v}}}''" _ k] by simp
  show ?thesis
    by (intro conjI) (fact el, fact htmlEscape_single_pass, fact un, fact ex, fact ex1, fact ex2)
qed

theorem C4_variable_element_witness:
  "renderElement sprintStr (VarElement ''v'' False) [VMap [(''v'', VStr ''a<b'')]] = Inr ''a&lt;b''
   \<and> renderElement sprintStr (VarElement ''v'' True) [VMap [(''v'', VStr ''a<b'')]] = Inr ''a<b''
   \<and> renderElement sprintStr (VarElement ''w'' False) [VMap [(''v'', VStr ''a<b'')]] = Inr []
   \<and> renderElement (\<lambda>v. ''printed'') (VarElement ''name'' True) [VStruct [(''name'', VStr ''bob'')]] = Inr []
   \<and> renderElement sprintStr (VarElement ''Name'' False) [VStruct [(''Name'', VStr ''<bob>'')]] = Inr ''&lt;bob&gt;''"
proof -
  have l1: "lookup [VMap [(''v'', VStr ''a<b'')]] ''v'' = VStr ''a<b''"
    by code_simp
  have l2: "lookup [VMap [(''v'', VStr ''a<b'')]] ''w'' = Invalid"
    by code_simp
  have e: "concat (map escapeChar ''a<b'') = ''a&lt;b''"
    by (simp add: esc_lt_def)
  have e2: "concat (map escapeChar ''<bob>'') = ''&lt;bob&gt;''"
    by (simp add: esc_lt_def esc_gt_def)
  have u1: "unexported ''name''" and u2: "\<not> unexported ''Name''"
    by (simp_all add: unexported_def)
  have c1: "renderElement sprintStr (VarElement ''v'' False) [VMap [(''v'', VStr ''a<b'')]] = Inr ''a&lt;b''"
    using C4_variable_element [of sprintStr "''v''" False "[VMap [(''v'', VStr ''a<b'')]]" "''a<b''"] l1 e
    by simp
  have c2: "renderElement sprintStr (VarElement ''v'' True) [VMap [(''v'', VStr ''a<b'')]] = Inr ''a<b''"
    using C4_variable_element [of sprintStr "''v''" True "[VMap [(''v'', VStr ''a<b'')]]"] l1
    by simp
  have c3: "renderElement sprintStr (VarElement ''w'' False) [VMap [(''v'', VStr ''a<b'')]] = Inr []"
    using C4_variable_element [of sprintStr "''w''" False "[VMap [(''v'', VStr ''a<b'')]]"] l2
    by simp
  have c4: "renderElement (\<lambda>v. ''printed'') (VarElement ''name'' True) [VStruct [(''name'', VStr ''bob'')]] = Inr []"
    by (rule C4_variable_element [of "\<lambda>v. ''printed''" "''name''" True _ _ "[(''name'', VStr ''bob'')]",
          THEN conjunct2, THEN conjunct2, THEN conjunct1, THEN mp])
       (simp add: u1)
  have c5: "renderElement sprintStr (VarElement ''Name'' False) [VStruct [(''Name'', VStr ''<bob>'')]] = Inr ''&lt;bob&gt;''"
  proof -
    have "renderElement sprintStr (VarElement ''Name'' False) [VStruct [(''Name'', VStr ''<bob>'')]]
            = Inr (if False then sprintStr (VStr ''<bob>'') else htmlEscape (sprintStr (VStr ''<bob>'')))"
      by (rule C4_variable_element [of sprintStr "''Name''" False _ _ "[(''Name'', VStr ''<bob>'')]" "VStr ''<bob>''",
            THEN conjunct2, THEN conjunct2, THEN conjunct2, THEN conjunct1, THEN mp])
         (simp add: u2)
    moreover have "htmlEscape ''<bob>'' = ''&lt;bob&gt;''"
      using e2 by (simp only: htmlEscape_single_pass)
    ultimately show ?thesis by (simp only: if_False sprintStr.simps)
  qed
  show ?thesis
    by (intro conjI) (fact c1, fact c2, fact c3, fact c4, fact c5)
qed

text \<open>
  The struct \<^verbatim>\<open>struct{ name string }{"bob"}\<close> has the one field \<^verbatim>\<open>name\<close>, which is
  unexported. The name resolves to a valid value, the string flagged read-only, and the
  element emits nothing, whatever would be printed for the value; the exported field of
  \<^verbatim>\<open>struct{ Name string }{"bob"}\<close> is printed.
\<close>

theorem C4_unexported_field_counterexample:
  "lookup [VStruct [(''name'', VStr ''bob'')]] ''name'' = VReadOnly (VStr ''bob'')
   \<and> renderElement (\<lambda>v. ''printed'') (VarElement ''name'' False) [VStruct [(''name'', VStr ''bob'')]] = Inr []
   \<and> Render 10 noFiles (\<lambda>v. ''printed'') ''{{name}}'' [VStruct [(''name'', VStr ''bob'')]] = Return []
   \<and> Render 10 noFiles (\<lambda>v. ''printed'') ''{{Name}}'' [VStruct [(''Name'', VStr ''bob'')]] = Return ''printed''"
  by code_simp

section \<open>Sections\<close>

lemma isEmpty_iff:
  "isEmpty v \<longleftrightarrow> indirect v = Invalid \<or> indirect v = VBool False \<or> indirect v = VSlice []"
  by (cases v; cases "indirect v") (auto simp: isEmpty_def)


text \<open>
  What \<^verbatim>\<open>renderSection\<close> does on a chain that is not empty. It emits nothing when the value
  is empty and the section is not inverted, or the other way round. For a scalar value, and
  for an inverted section, it renders the children once on the chain with the chain's last
  frame stored in front. Rendering does not tell a chain from one with a frame repeated next
  to itself, so on a chain of one frame this is rendering on the chain itself.
\<close>

lemma seqOut_single: "seqOut [r] = r"
  by (cases r) simp_all

lemma renderSection_unreadable:
  "chain \<noteq> [] \<Longrightarrow> lookup chain name \<noteq> Invalid \<Longrightarrow> \<not> canInterface (lookup chain name) \<Longrightarrow>
     renderSection sprint name invd es chain =
       Inl (Panic ''cannot return value obtained from unexported field or method'')"
  by (simp add: Let_def)

lemma renderSection_skips:
  "chain \<noteq> [] \<Longrightarrow> lookup chain name = Invalid \<or> canInterface (lookup chain name) \<Longrightarrow>
   isEmpty (lookup chain name) \<noteq> invd \<Longrightarrow>
     renderSection sprint name invd es chain = Inr []"
  by (auto simp: Let_def)

lemma renderSection_inverted_frame:
  "chain \<noteq> [] \<Longrightarrow> lookup chain name = Invalid \<or> canInterface (lookup chain name) \<Longrightarrow>
   isEmpty (lookup chain name) \<Longrightarrow>
     renderSection sprint name True es chain =
       seqOut (map (\<lambda>elem. renderElement sprint elem (last chain # chain)) es)"
  by (auto simp: Let_def seqOut_single)

lemma renderSection_scalar_frame:
  assumes "chain \<noteq> []" and "\<not> isEmpty (lookup chain name)" and "canInterface (lookup chain name)"
    and "indirect (lookup chain name) = VBool b \<or> indirect (lookup chain name) = VInt i
         \<or> indirect (lookup chain name) = VStr s"
  shows "renderSection sprint name False es chain =
           seqOut (map (\<lambda>elem. renderElement sprint elem (last chain # chain)) es)"
  using assms by (auto simp: Let_def seqOut_single)

lemma lookupOuter_remdups_adj: "lookupOuter name (remdups_adj c) = lookupOuter name c"
  by (induction c rule: remdups_adj.induct) (auto split: option.splits)

lemma lookup_same_frames:
  "remdups_adj c1 = remdups_adj c2 \<Longrightarrow> lookup c1 name = lookup c2 name"
proof (induction "length name" arbitrary: name c1 c2 rule: less_induct)
  case less
  show ?case
  proof (cases "name \<noteq> ''.'' \<and> CHR ''.'' \<in> set name")
    case True
    then have d: "CHR ''.'' \<in> set name" and nd: "name \<noteq> ''.''" by simp_all
    have h: "lookup c1 (SplitN2 (CHR ''.'') name ! 0) = lookup c2 (SplitN2 (CHR ''.'') name ! 0)"
      using less.hyps [of "SplitN2 (CHR ''.'') name ! 0" c1 c2] SplitN2_head_length [OF d] less.prems by simp
    show ?thesis
      by (simp add: lookup_dotted [OF nd d] h)
  next
    case False
    then have pl: "name = ''.'' \<or> CHR ''.'' \<notin> set name" by blast
    have "lookupOuter name c1 = lookupOuter name (remdups_adj c1)"
      by (simp add: lookupOuter_remdups_adj)
    also have "\<dots> = lookupOuter name c2"
      using less.prems by (simp add: lookupOuter_remdups_adj)
    finally show ?thesis by (simp add: lookup_plain [OF pl])
  qed
qed

lemma same_frames_last:
  assumes "remdups_adj c1 = remdups_adj c2"
  shows "(c1 = []) = (c2 = []) \<and> last c1 = last c2 \<and> (\<forall>x. remdups_adj (x # c1) = remdups_adj (x # c2))"
proof -
  have e: "(c1 = []) = (c2 = [])"
    using assms by (metis remdups_adj_Nil_iff)
  have l: "last c1 = last c2"
    using assms by (metis last_remdups_adj)
  have c: "remdups_adj (x # c1) = remdups_adj (x # c2)" for x
    using assms by (simp add: remdups_adj_Cons)
  show ?thesis using e l c by blast
qed

lemma renderSection_cong:
  assumes lk: "lookup c1 name = lookup c2 name"
    and e: "(c1 = []) = (c2 = [])"
    and l: "last c1 = last c2"
    and m: "\<And>ctx. map (\<lambda>elem. renderElement sprint elem (ctx # c1)) es = map (\<lambda>elem. renderElement sprint elem (ctx # c2)) es"
  shows "renderSection sprint name invd es c1 = renderSection sprint name invd es c2"
proof (cases "c1 = []")
  case True
  with e have "c2 = []" by simp
  with True show ?thesis by (simp add: Let_def)
next
  case False
  with e have n2: "c2 \<noteq> []" by simp
  show ?thesis
    using False n2 by (simp add: Let_def lk l m)
qed


lemma render_same_frames:
  "\<forall>c1 c2. remdups_adj c1 = remdups_adj c2 \<longrightarrow> renderElement sprint e c1 = renderElement sprint e c2"
  "\<forall>c1 c2. remdups_adj c1 = remdups_adj c2 \<longrightarrow> renderTemplate sprint t c1 = renderTemplate sprint t c2"
proof (induction e and t)
  case (TextElement x)
  show ?case by simp
next
  case (VarElement x1 x2)
  show ?case
  proof (intro allI impI)
    fix c1 c2 :: "val list"
    assume s: "remdups_adj c1 = remdups_adj c2"
    have "lookup c1 x1 = lookup c2 x1" by (rule lookup_same_frames [OF s])
    then show "renderElement sprint (VarElement x1 x2) c1 = renderElement sprint (VarElement x1 x2) c2"
      by (simp add: Let_def)
  qed
next
  case (SectionElement name invd sl es)
  show ?case
  proof (intro allI impI)
    fix c1 c2 :: "val list"
    assume s: "remdups_adj c1 = remdups_adj c2"
    have lk: "lookup c1 name = lookup c2 name" by (rule lookup_same_frames [OF s])
    have e: "(c1 = []) = (c2 = [])" and l: "last c1 = last c2"
      and c: "\<And>x. remdups_adj (x # c1) = remdups_adj (x # c2)"
      using same_frames_last [OF s] by blast+
    have el: "renderElement sprint elem (ctx # c1) = renderElement sprint elem (ctx # c2)"
      if "elem \<in> set es" for elem ctx
      using SectionElement [OF that] c [of ctx] by blast
    have m: "map (\<lambda>elem. renderElement sprint elem (ctx # c1)) es = map (\<lambda>elem. renderElement sprint elem (ctx # c2)) es"
      for ctx
      by (rule map_cong [OF refl el])
    have "renderSection sprint name invd es c1 = renderSection sprint name invd es c2"
      by (rule renderSection_cong [OF lk e l m])
    then show "renderElement sprint (SectionElement name invd sl es) c1 =
          renderElement sprint (SectionElement name invd sl es) c2"
      by (simp only: renderElement.simps)
  qed
next
  case (TemplateElement x)
  show ?case
  proof (intro allI impI)
    fix c1 c2 :: "val list"
    assume s: "remdups_adj c1 = remdups_adj c2"
    with TemplateElement have "renderTemplate sprint x c1 = renderTemplate sprint x c2" by blast
    then show "renderElement sprint (TemplateElement x) c1 = renderElement sprint (TemplateElement x) c2"
      by (simp only: renderElement.simps)
  qed
next
  case (Template x1 x2 x3 x4 x5 x6 x7)
  show ?case
  proof (intro allI impI)
    fix c1 c2 :: "val list"
    assume s: "remdups_adj c1 = remdups_adj c2"
    have el: "renderElement sprint elem c1 = renderElement sprint elem c2" if "elem \<in> set x7" for elem
      using Template [OF that] s by blast
    have "map (\<lambda>elem. renderElement sprint elem c1) x7 = map (\<lambda>elem. renderElement sprint elem c2) x7"
      by (rule map_cong [OF refl el])
    then show "renderTemplate sprint (Template x1 x2 x3 x4 x5 x6 x7) c1 =
               renderTemplate sprint (Template x1 x2 x3 x4 x5 x6 x7) c2"
      by (simp only: renderTemplate.simps)
  qed
qed

lemma renderSection_one_frame:
  assumes "lookup [c] name = Invalid \<or> canInterface (lookup [c] name)"
    and "isEmpty (lookup [c] name) \<and> invd
           \<or> \<not> isEmpty (lookup [c] name) \<and> \<not> invd
               \<and> (indirect (lookup [c] name) = VBool b \<or> indirect (lookup [c] name) = VInt i
                    \<or> indirect (lookup [c] name) = VStr s)"
  shows "renderSection sprint name invd es [c] = seqOut (map (\<lambda>elem. renderElement sprint elem [c]) es)"
proof -
  have r: "remdups_adj [c, c] = remdups_adj [c]" by simp
  have m: "map (\<lambda>elem. renderElement sprint elem [c, c]) es = map (\<lambda>elem. renderElement sprint elem [c]) es"
    using render_same_frames(1) [of sprint] r by simp
  have "renderSection sprint name invd es [c] = seqOut (map (\<lambda>elem. renderElement sprint elem (last [c] # [c])) es)"
  proof (cases "isEmpty (lookup [c] name) \<and> invd")
    case True
    then show ?thesis
      using assms(1) renderSection_inverted_frame [of "[c]" name sprint es] by simp
  next
    case False
    with assms(2) have ne: "\<not> isEmpty (lookup [c] name)" and ni: "\<not> invd"
      and k: "indirect (lookup [c] name) = VBool b \<or> indirect (lookup [c] name) = VInt i
                    \<or> indirect (lookup [c] name) = VStr s"
      by blast+
    from ne have "lookup [c] name \<noteq> Invalid" by (auto simp: isEmpty_def)
    with assms(1) have ci: "canInterface (lookup [c] name)" by simp
    show ?thesis
      using renderSection_scalar_frame [OF _ ne ci k, of sprint es] ni by simp
  qed
  then show ?thesis using m by simp
qed

text \<open>
  Claim C1, the code at the failing input. Inside the iteration of \<^verbatim>\<open>list\<close> the chain is the
  item, then the root. The section \<^verbatim>\<open>flag\<close> resolves to \<^verbatim>\<open>true\<close>, a scalar, and
  \<^verbatim>\<open>renderSection\<close> stores \<^verbatim>\<open>contextChain[len(contextChain)-1]\<close>, the root, in front of the
  chain: its children resolve \<^verbatim>\<open>n\<close> to \<^verbatim>\<open>outer\<close>, where the chain the section itself saw
  resolves it to \<^verbatim>\<open>inner\<close>.
\<close>

theorem C1_scalar_section_at_failing_input:
  "renderSection sprintStr ''flag'' False [VarElement ''n'' False] [VIface item_inner, root_outer] = Inr ''outer''
   \<and> renderElement sprintStr (VarElement ''n'' False) [VIface item_inner, root_outer] = Inr ''inner''
   \<and> Render 12 noFiles sprintStr ''{{#list}}{{#flag}}{{n}}{{/flag}}{{/list}}'' [root_outer] = Return ''outer''"
  by code_simp

text \<open>
  Claim C2, the code at the failing input. \<^verbatim>\<open>isEmpty\<close> has a case for slices and none for
  arrays, which \<^verbatim>\<open>renderSection\<close> iterates like slices: a zero-length array is classified
  non-empty, and the inverted section of a zero-length array emits nothing where that of a
  zero-length slice emits its body.
\<close>

theorem C2_zero_length_array_at_failing_input:
  "isEmpty (VArray []) = False
   \<and> isEmpty (VSlice []) = True
   \<and> Render 10 noFiles sprintStr ''{{^a}}empty{{/a}}'' [VMap [(''a'', VArray [])]] = Return []
   \<and> Render 10 noFiles sprintStr ''{{^a}}empty{{/a}}'' [VMap [(''a'', VSlice [])]] = Return ''empty''
   \<and> Render 10 noFiles sprintStr ''{{^a}}empty{{/a}}'' [VMap [(''a'', VSlice [VInt 1])]] = Return []"
  by code_simp

section \<open>Rendering with an empty context chain\<close>

lemma lookup_empty_chain: "lookup [] name = Invalid \<and> lookup [Invalid] name = Invalid"
proof (induction "length name" arbitrary: name rule: less_induct)
  case less
  show ?case
  proof (cases "name \<noteq> ''.'' \<and> CHR ''.'' \<in> set name")
    case True
    then have d: "CHR ''.'' \<in> set name" and nd: "name \<noteq> ''.''" by simp_all
    have h: "lookup [] (SplitN2 (CHR ''.'') name ! 0) = Invalid"
      and h': "lookup [Invalid] (SplitN2 (CHR ''.'') name ! 0) = Invalid"
      using less [of "SplitN2 (CHR ''.'') name ! 0"] SplitN2_head_length [OF d] by simp_all
    have r: "lookup [Invalid] (SplitN2 (CHR ''.'') name ! Suc 0) = Invalid"
      using less [of "SplitN2 (CHR ''.'') name ! Suc 0"] SplitN2_rest_length [OF d] by simp
    show ?thesis
      by (simp add: lookup_dotted [OF nd d] h h' r)
  next
    case False
    then have "name = ''.'' \<or> CHR ''.'' \<notin> set name" by blast
    then show ?thesis by (simp add: lookup_plain)
  qed
qed

lemma seqOut_map_panic:
  assumes "\<And>e. e \<in> set es \<Longrightarrow> f e = (if c e then Inl pn else Inr (g e))"
  shows "seqOut (map f es) = (if list_ex c es then Inl pn else Inr (concat (map g es)))"
  using assms by (induction es) auto

lemma render_empty_chain:
  "renderElement sprint e [] =
     (if containsSection e then Inl (Panic ''index out of range'') else Inr (literalText e))"
  "renderTemplate sprint t [] =
     (if templateContainsSection t then Inl (Panic ''index out of range'') else Inr (templateLiteralText t))"
proof (induction e and t)
  case (TextElement x)
  then show ?case by simp
next
  case (VarElement x1 x2)
  then show ?case by (simp add: lookup_empty_chain)
next
  case (SectionElement x1 x2 x3 x4)
  then show ?case by simp
next
  case (TemplateElement x)
  then show ?case by simp
next
  case (Template x1 x2 x3 x4 x5 x6 x7)
  then show ?case by (simp add: seqOut_map_panic)
qed


text \<open>
  Claim C10. \<^verbatim>\<open>renderSection\<close> reads the last element of the context chain before the
  emptiness check, so \<^verbatim>\<open>Render\<close> with no context argument panics with an index out of range
  on every template that holds a section element, inverted or not; a template of text,
  variable and partial elements only renders normally, to its literal text.
\<close>

theorem C10_render_without_context:
  "Template_Render sprint t [] =
     (if templateContainsSection t then Inl (Panic ''index out of range'')
      else Inr (templateLiteralText t))"
  by (simp add: Template_Render_def render_empty_chain)

theorem C10_render_without_context_witness:
  "Template_Render sprintStr
     (Template ''{{^a}}x{{/a}}'' ''{{'' ''}}'' 13 1 []
        [TextElement [], SectionElement ''a'' True 1 [TextElement ''x''], TextElement []]) []
     = Inl (Panic ''index out of range'')
   \<and> Template_Render sprintStr
     (Template ''a{{b}}c'' ''{{'' ''}}'' 7 1 []
        [TextElement ''a'', VarElement ''b'' False, TextElement ''c'']) []
     = Inr ''ac''"
  using C10_render_without_context [of sprintStr
      "Template ''{{^a}}x{{/a}}'' ''{{'' ''}}'' 13 1 []
        [TextElement [], SectionElement ''a'' True 1 [TextElement ''x''], TextElement []]"]
    C10_render_without_context [of sprintStr
      "Template ''a{{b}}c'' ''{{'' ''}}'' 7 1 []
        [TextElement ''a'', VarElement ''b'' False, TextElement ''c'']"]
  by simp


section \<open>Invariants of the parse loops\<close>

lemma last_dropWhile: "dropWhile P xs \<noteq> [] \<Longrightarrow> last (dropWhile P xs) = last xs"
  by (induction xs) (auto split: if_splits)

lemma spaceRunes_nonempty: "r \<in> set spaceRunes \<Longrightarrow> r \<noteq> []"
  by (auto simp: spaceRunes_def)

lemma space_rune: "[CHR '' ''] \<in> set spaceRunes"
  by (simp add: spaceRunes_def)

lemma leadingSpace_0: "leadingSpace s = 0 \<Longrightarrow> r \<in> set spaceRunes \<Longrightarrow> take (length r) s \<noteq> r"
proof -
  assume a: "leadingSpace s = 0" and r: "r \<in> set spaceRunes"
  show ?thesis
  proof (cases "find (\<lambda>r. take (length r) s = r) spaceRunes")
    case None
    then show ?thesis using r by (auto simp: find_None_iff)
  next
    case (Some q)
    then have "q \<in> set spaceRunes" by (auto simp: find_Some_iff in_set_conv_nth)
    then have "length q \<noteq> 0" using spaceRunes_nonempty by auto
    with a Some show ?thesis by (simp add: leadingSpace_def)
  qed
qed

lemma trailingSpace_0:
  "trailingSpace s = 0 \<Longrightarrow> r \<in> set spaceRunes \<Longrightarrow> \<not> (length r \<le> length s \<and> drop (length s - length r) s = r)"
proof -
  assume a: "trailingSpace s = 0" and r: "r \<in> set spaceRunes"
  show ?thesis
  proof (cases "find (\<lambda>r. length r \<le> length s \<and> drop (length s - length r) s = r) spaceRunes")
    case None
    then show ?thesis using r by (auto simp: find_None_iff)
  next
    case (Some q)
    then have "q \<in> set spaceRunes" by (auto simp: find_Some_iff in_set_conv_nth)
    then have "length q \<noteq> 0" using spaceRunes_nonempty by auto
    with a Some show ?thesis by (simp add: trailingSpace_def)
  qed
qed

lemma TrimLeftSpace_done: "leadingSpace (TrimLeftSpace s) = 0"
  by (induction s rule: TrimLeftSpace.induct) (subst TrimLeftSpace.simps, simp)

lemma TrimRightSpace_done: "trailingSpace (TrimRightSpace s) = 0"
  by (induction s rule: TrimRightSpace.induct) (subst TrimRightSpace.simps, simp)

lemma TrimRightSpace_take: "\<exists>k. TrimRightSpace s = take k s"
proof (induction s rule: TrimRightSpace.induct)
  case (1 s)
  show ?case
  proof (cases "trailingSpace s = 0")
    case True
    then have "TrimRightSpace s = take (length s) s" by (subst TrimRightSpace.simps) simp
    then show ?thesis by blast
  next
    case False
    from 1 [OF False] obtain k where "TrimRightSpace (take (length s - trailingSpace s) s) = take k (take (length s - trailingSpace s) s)"
      by blast
    then have "TrimRightSpace s = take (min k (length s - trailingSpace s)) s"
      using False by (subst TrimRightSpace.simps) (simp add: take_take)
    then show ?thesis by blast
  qed
qed

lemma TrimLeftSpace_drop: "\<exists>k. TrimLeftSpace s = drop k s"
proof (induction s rule: TrimLeftSpace.induct)
  case (1 s)
  show ?case
  proof (cases "leadingSpace s = 0")
    case True
    then have "TrimLeftSpace s = drop 0 s" by (subst TrimLeftSpace.simps) simp
    then show ?thesis by blast
  next
    case False
    from 1 [OF False] obtain k where "TrimLeftSpace (drop (leadingSpace s) s) = drop k (drop (leadingSpace s) s)"
      by blast
    then have "TrimLeftSpace s = drop (k + leadingSpace s) s"
      using False by (subst TrimLeftSpace.simps) simp
    then show ?thesis by blast
  qed
qed

lemma TrimSpace_last: "TrimSpace s \<noteq> [] \<Longrightarrow> last (TrimSpace s) \<noteq> CHR '' ''"
proof
  assume ne: "TrimSpace s \<noteq> []" and l: "last (TrimSpace s) = CHR '' ''"
  let ?w = "TrimSpace s"
  have "trailingSpace ?w = 0" by (simp add: TrimSpace_def TrimRightSpace_done)
  from trailingSpace_0 [OF this space_rune]
  have "\<not> (length [CHR '' ''] \<le> length ?w \<and> drop (length ?w - length [CHR '' '']) ?w = [CHR '' ''])" .
  moreover have "length [CHR '' ''] \<le> length ?w" using ne by (cases ?w) simp_all
  moreover have "drop (length ?w - length [CHR '' '']) ?w = [CHR '' '']"
  proof -
    from ne obtain ys y where w: "?w = ys @ [y]" by (metis rev_exhaust)
    with l have "y = CHR '' ''" by simp
    with w show ?thesis by simp
  qed
  ultimately show False by blast
qed

lemma TrimSpace_hd: "TrimSpace s \<noteq> [] \<Longrightarrow> hd (TrimSpace s) \<noteq> CHR '' ''"
proof
  assume ne: "TrimSpace s \<noteq> []" and h: "hd (TrimSpace s) = CHR '' ''"
  let ?y = "TrimLeftSpace s"
  obtain k where k: "TrimSpace s = take k ?y" using TrimRightSpace_take [of ?y] by (auto simp: TrimSpace_def)
  with ne have y: "?y \<noteq> []" and k0: "k \<noteq> 0" by auto
  from k k0 y have "hd (TrimSpace s) = hd ?y" by (cases ?y; cases k) simp_all
  with h y have "take (length [CHR '' '']) ?y = [CHR '' '']" by (cases ?y) simp_all
  moreover have "leadingSpace ?y = 0" by (rule TrimLeftSpace_done)
  ultimately show False using leadingSpace_0 [OF _ space_rune] by blast
qed

lemma TrimSpace_subset: "set (TrimSpace s) \<subseteq> set s"
proof -
  obtain k where k: "TrimSpace s = take k (TrimLeftSpace s)" using TrimRightSpace_take [of "TrimLeftSpace s"] by (auto simp: TrimSpace_def)
  obtain j where j: "TrimLeftSpace s = drop j s" using TrimLeftSpace_drop by blast
  show ?thesis unfolding k j by (meson set_take_subset set_drop_subset subset_trans)
qed

lemma SplitN2_space_parts:
  assumes "CHR '' '' \<in> set (TrimSpace x)"
  shows "SplitN2 (CHR '' '') (TrimSpace x) =
           [takeWhile (\<lambda>c. c \<noteq> CHR '' '') (TrimSpace x), tl (dropWhile (\<lambda>c. c \<noteq> CHR '' '') (TrimSpace x))]
         \<and> takeWhile (\<lambda>c. c \<noteq> CHR '' '') (TrimSpace x) \<noteq> []
         \<and> tl (dropWhile (\<lambda>c. c \<noteq> CHR '' '') (TrimSpace x)) \<noteq> []"
proof -
  let ?w = "TrimSpace x"
  have ne: "?w \<noteq> []" using assms by auto
  have h: "hd ?w \<noteq> CHR '' ''" using TrimSpace_hd [OF ne] .
  have l: "last ?w \<noteq> CHR '' ''" using TrimSpace_last [OF ne] .
  have p0: "takeWhile (\<lambda>c. c \<noteq> CHR '' '') ?w \<noteq> []"
    using ne h by (cases ?w) auto
  have dn: "dropWhile (\<lambda>c. c \<noteq> CHR '' '') ?w \<noteq> []" using assms by simp
  have hdd: "hd (dropWhile (\<lambda>c. c \<noteq> CHR '' '') ?w) = CHR '' ''"
    using hd_dropWhile [OF dn] by simp
  have p1: "tl (dropWhile (\<lambda>c. c \<noteq> CHR '' '') ?w) \<noteq> []"
  proof
    assume e: "tl (dropWhile (\<lambda>c. c \<noteq> CHR '' '') ?w) = []"
    then have "dropWhile (\<lambda>c. c \<noteq> CHR '' '') ?w = [CHR '' '']"
      using dn hdd by (cases "dropWhile (\<lambda>c. c \<noteq> CHR '' '') ?w") auto
    then have "last (dropWhile (\<lambda>c. c \<noteq> CHR '' '') ?w) = CHR '' ''" by simp
    then have "last ?w = CHR '' ''" using last_dropWhile [OF dn] by simp
    with l show False by simp
  qed
  show ?thesis using assms p0 p1 by (simp add: SplitN2_def)
qed

lemma metaTag_invalid:
  "tag ! (length tag - 1) \<noteq> CHR ''='' \<Longrightarrow> metaTag tag t = Inl (ParseError (curline t) ''Invalid meta tag'')"
  by (simp add: metaTag_def)

lemma metaTag_change:
  assumes "tag ! (length tag - 1) = CHR ''=''" and "2 \<le> length tag"
    and "CHR '' '' \<in> set (TrimSpace (take (length tag - 2) (drop 1 tag)))"
  shows "metaTag tag t =
           Inr (set_tags (takeWhile (\<lambda>c. c \<noteq> CHR '' '') (TrimSpace (take (length tag - 2) (drop 1 tag))))
                         (tl (dropWhile (\<lambda>c. c \<noteq> CHR '' '') (TrimSpace (take (length tag - 2) (drop 1 tag))))) t)"
proof -
  have e: "length tag - 1 - 1 = length tag - 2" by simp
  have n: "\<not> length tag - 1 < 1" using assms(2) by simp
  show ?thesis
    using assms(1) n SplitN2_space_parts [OF assms(3)]
    by (simp add: metaTag_def e Let_def del: One_nat_def)
qed

lemma metaTag_ignored:
  assumes "tag ! (length tag - 1) = CHR ''=''" and "2 \<le> length tag"
    and "CHR '' '' \<notin> set (TrimSpace (take (length tag - 2) (drop 1 tag)))"
  shows "metaTag tag t = Inr t"
proof -
  have e: "length tag - 1 - 1 = length tag - 2" by simp
  have n: "\<not> length tag - 1 < 1" using assms(2) by simp
  show ?thesis
    using assms(1) n assms(3)
    by (simp add: metaTag_def e Let_def SplitN2_def del: One_nat_def)
qed

lemma metaTag_nonempty:
  assumes "metaTag tag t = Inr t'" and "otag t \<noteq> []" and "ctag t \<noteq> []"
  shows "otag t' \<noteq> [] \<and> ctag t' \<noteq> []"
proof (cases "tag ! (length tag - 1) = CHR ''='' \<and> 2 \<le> length tag")
  case False
  then show ?thesis
    using assms by (auto simp: metaTag_def split: if_splits)
next
  case True
  show ?thesis
  proof (cases "CHR '' '' \<in> set (TrimSpace (take (length tag - 2) (drop 1 tag)))")
    case True
    with \<open>tag ! (length tag - 1) = CHR ''='' \<and> 2 \<le> length tag\<close>
    have "metaTag tag t =
           Inr (set_tags (takeWhile (\<lambda>c. c \<noteq> CHR '' '') (TrimSpace (take (length tag - 2) (drop 1 tag))))
                         (tl (dropWhile (\<lambda>c. c \<noteq> CHR '' '') (TrimSpace (take (length tag - 2) (drop 1 tag))))) t)"
      using metaTag_change by blast
    then show ?thesis
      using assms(1) SplitN2_space_parts [OF True] by (auto simp: set_tags_def)
  next
    case False
    with \<open>tag ! (length tag - 1) = CHR ''='' \<and> 2 \<le> length tag\<close>
    have "metaTag tag t = Inr t" using metaTag_ignored by blast
    then show ?thesis using assms by simp
  qed
qed

lemma readString_frame:
  "readString s t = Inr (x, e, t1) \<Longrightarrow>
     otag t1 = otag t \<and> ctag t1 = ctag t \<and> data t1 = data t \<and> dir t1 = dir t \<and> elems t1 = elems t"
  by (auto simp: readString_def set_curline_def set_p_def split: sum.splits option.splits prod.splits if_splits)

lemma readTag_cases:
  assumes "readTag t = Inr (tag, t')"
  shows "tag \<noteq> [] \<and> (\<exists>s x. readString s t = Inr (x, False, t'))"
  using assms unfolding readTag_def
  by (auto simp: Let_def split: sum.splits prod.splits if_splits)

lemma parseIter_invariant:
  assumes rs: "\<And>s t0 x e t1. readString s t0 = Inr (x, e, t1) \<Longrightarrow> I t0 \<Longrightarrow> I t1"
    and sk: "\<And>t0. I t0 \<Longrightarrow> I (skipNewline t0)"
    and ap: "\<And>el t0. I t0 \<Longrightarrow> I (append_elem el t0)"
    and mt: "\<And>tag t0 t1. metaTag tag t0 = Inr t1 \<Longrightarrow> I t0 \<Longrightarrow> I t1"
    and pS: "\<And>se t0 t' se'. pS se t0 = Return (t', se') \<Longrightarrow> I t0 \<Longrightarrow> I t'"
    and ok: "I t"
    and r: "parseIter pS pP t = Return r"
  shows "I (case r of Next t' \<Rightarrow> t' | Leave t' \<Rightarrow> t')"
proof (cases "readString (otag t) t")
  case (Inl e)
  with r show ?thesis by (simp add: parseIter_def)
next
  case (Inr x)
  obtain tx eof t1 where x: "x = (tx, eof, t1)" by (cases x)
  have i1: "I t1" using rs [of "otag t" t tx eof t1] Inr x ok by simp
  show ?thesis
  proof (cases eof)
    case True
    with Inr x r ap [OF i1] show ?thesis by (auto simp: parseIter_def)
  next
    case False
    note rd = Inr x False
    let ?t2 = "append_elem (TextElement (take (length tx - length (otag t1)) tx)) t1"
    have i2: "I ?t2" by (rule ap [OF i1])
    show ?thesis
    proof (cases "readTag ?t2")
      case (Inl e)
      with rd r show ?thesis by (simp add: parseIter_def Let_def)
    next
      case (Inr y)
      obtain tag t3 where y: "y = (tag, t3)" by (cases y)
      note rt = Inr y
      have i3: "I t3"
        using readTag_cases [of ?t2 tag t3] rt rs i2 by auto
      show ?thesis
      proof (cases "tag ! 0 = CHR ''#'' \<or> tag ! 0 = CHR ''^''")
        case True
        then have nb: "tag ! 0 \<noteq> CHR ''!''" by auto
        let ?se = "SectionElement (TrimSpace (drop 1 tag)) (tag ! 0 = CHR ''^'') (curline (skipNewline t3)) []"
        from r rd rt nb True obtain t5 se' where
          s: "pS ?se (skipNewline t3) = Return (t5, se')" and rr: "r = Next (append_elem se' t5)"
          by (auto simp: parseIter_def Let_def split: result.splits)
        have "I t5" by (rule pS [OF s sk [OF i3]])
        then show ?thesis using rr ap by simp
      next
        case ns: False
        show ?thesis
        proof (cases "tag ! 0 = CHR ''=''")
          case True
          with r rd rt ns obtain t4 where m: "metaTag tag t3 = Inr t4" and rr: "r = Next t4"
            by (auto simp: parseIter_def Let_def split: sum.splits)
          from mt [OF m i3] rr show ?thesis by simp
        next
          case False
          with r rd rt ns have "r = Next t3 \<or> (\<exists>el. r = Next (append_elem el t3))"
            by (auto simp: parseIter_def Let_def split: if_splits result.splits)
          then show ?thesis using i3 ap by auto
        qed
      qed
    qed
  qed
qed

lemma parseSectionIter_invariant:
  assumes rs: "\<And>s t0 x e t1. readString s t0 = Inr (x, e, t1) \<Longrightarrow> I t0 \<Longrightarrow> I t1"
    and sk: "\<And>t0. I t0 \<Longrightarrow> I (skipNewline t0)"
    and mt: "\<And>tag t0 t1. metaTag tag t0 = Inr t1 \<Longrightarrow> I t0 \<Longrightarrow> I t1"
    and pS: "\<And>se t0 t' se'. pS se t0 = Return (t', se') \<Longrightarrow> I t0 \<Longrightarrow> I t'"
    and ok: "I t"
    and r: "parseSectionIter pS pP sec t = Return r"
  shows "I (fst (case r of Next x \<Rightarrow> x | Leave x \<Rightarrow> x))"
proof (cases "readString (otag t) t")
  case (Inl e)
  with r show ?thesis by (simp add: parseSectionIter_def)
next
  case (Inr x)
  obtain tx eof t1 where x: "x = (tx, eof, t1)" by (cases x)
  have i1: "I t1" using rs [of "otag t" t tx eof t1] Inr x ok by simp
  show ?thesis
  proof (cases eof)
    case True
    with Inr x r show ?thesis by (auto simp: parseSectionIter_def)
  next
    case False
    note rd = Inr x False
    show ?thesis
    proof (cases "readTag t1")
      case (Inl e)
      with rd r show ?thesis by (simp add: parseSectionIter_def Let_def)
    next
      case (Inr y)
      obtain tag t3 where y: "y = (tag, t3)" by (cases y)
      note rt = Inr y
      have i3: "I t3"
        using readTag_cases [of t1 tag t3] rt rs i1 by auto
      show ?thesis
      proof (cases "tag ! 0 = CHR ''#'' \<or> tag ! 0 = CHR ''^''")
        case True
        then have nb: "tag ! 0 \<noteq> CHR ''!''" by auto
        let ?se = "SectionElement (TrimSpace (drop 1 tag)) (tag ! 0 = CHR ''^'') (curline (skipNewline t3)) []"
        from r rd rt nb True obtain t5 se' where
          s: "pS ?se (skipNewline t3) = Return (t5, se')" and rr: "fst (case r of Next x \<Rightarrow> x | Leave x \<Rightarrow> x) = t5"
          by (auto simp: parseSectionIter_def Let_def split: result.splits)
        have "I t5" by (rule pS [OF s sk [OF i3]])
        then show ?thesis using rr by simp
      next
        case ns: False
        show ?thesis
        proof (cases "tag ! 0 = CHR ''=''")
          case True
          with r rd rt ns obtain t4 where m: "metaTag tag t3 = Inr t4"
            and rr: "fst (case r of Next x \<Rightarrow> x | Leave x \<Rightarrow> x) = t4"
            by (auto simp: parseSectionIter_def Let_def split: sum.splits)
          from mt [OF m i3] rr show ?thesis by simp
        next
          case False
          with r rd rt ns have "fst (case r of Next x \<Rightarrow> x | Leave x \<Rightarrow> x) = t3"
            by (auto simp: parseSectionIter_def Let_def split: if_splits result.splits)
          then show ?thesis using i3 by simp
        qed
      qed
    qed
  qed
qed

lemma parse_invariant:
  assumes rs: "\<And>s t0 x e t1. readString s t0 = Inr (x, e, t1) \<Longrightarrow> I t0 \<Longrightarrow> I t1"
    and sk: "\<And>t0. I t0 \<Longrightarrow> I (skipNewline t0)"
    and ap: "\<And>el t0. I t0 \<Longrightarrow> I (append_elem el t0)"
    and mt: "\<And>tag t0 t1. metaTag tag t0 = Inr t1 \<Longrightarrow> I t0 \<Longrightarrow> I t1"
  shows "(\<forall>t t'. parse n en t = Return t' \<longrightarrow> I t \<longrightarrow> I t')
   \<and> (\<forall>sec t t' sec'. parseSection n en sec t = Return (t', sec') \<longrightarrow> I t \<longrightarrow> I t')"
proof (induction n)
  case 0
  show ?case by (simp add: parse.simps parseSection.simps)
next
  case (Suc n)
  have pS: "\<And>se t0 t' se'. parseSection n en se t0 = Return (t', se') \<Longrightarrow> I t0 \<Longrightarrow> I t'"
    using Suc by blast
  have a: "I t'" if r: "parse (Suc n) en t = Return t'" and ok: "I t" for t t'
  proof (cases "parseIter (\<lambda>se t'. parseSection n en se t') (\<lambda>t' name. parsePartial n en t' name) t")
    case OutOfFuel
    with r show ?thesis by (simp add: parse.simps(2) [of n en t])
  next
    case (Fail e)
    with r show ?thesis by (simp add: parse.simps(2) [of n en t])
  next
    case (Return it)
    from parseIter_invariant [of I, OF rs sk ap mt pS ok Return]
    have d: "I (case it of Next t' \<Rightarrow> t' | Leave t' \<Rightarrow> t')" .
    show ?thesis
    proof (cases it)
      case (Next t2)
      with r Return have "parse n en t2 = Return t'" by (simp add: parse.simps(2) [of n en t])
      moreover from d Next have "I t2" by simp
      ultimately show ?thesis using Suc by blast
    next
      case (Leave t2)
      with r Return d show ?thesis by (simp add: parse.simps(2) [of n en t])
    qed
  qed
  have b: "I t'" if r: "parseSection (Suc n) en sec t = Return (t', sec')" and ok: "I t" for sec t t' sec'
  proof (cases "parseSectionIter (\<lambda>se t'. parseSection n en se t') (\<lambda>t' name. parsePartial n en t' name) sec t")
    case OutOfFuel
    with r show ?thesis by (simp add: parseSection.simps(2) [of n en sec t])
  next
    case (Fail e)
    with r show ?thesis by (simp add: parseSection.simps(2) [of n en sec t])
  next
    case (Return it)
    from parseSectionIter_invariant [of I, OF rs sk mt pS ok Return]
    have d: "I (fst (case it of Next x \<Rightarrow> x | Leave x \<Rightarrow> x))" .
    show ?thesis
    proof (cases it)
      case (Next x)
      obtain t2 s2 where x: "x = (t2, s2)" by (cases x)
      with r Return Next have "parseSection n en s2 t2 = Return (t', sec')"
        by (simp add: parseSection.simps(2) [of n en sec t])
      moreover from d Next x have "I t2" by simp
      ultimately show ?thesis using Suc by blast
    next
      case (Leave x)
      with r Return d show ?thesis by (auto simp: parseSection.simps(2) [of n en sec t])
    qed
  qed
  show ?case using a b by blast
qed

lemma skipNewline_frame:
  "otag (skipNewline t) = otag t \<and> ctag (skipNewline t) = ctag t \<and> data (skipNewline t) = data t
   \<and> dir (skipNewline t) = dir t \<and> curline (skipNewline t) = curline t \<and> elems (skipNewline t) = elems t"
  by (simp add: skipNewline_def set_p_def)

lemma append_elem_frame:
  "otag (append_elem e t) = otag t \<and> ctag (append_elem e t) = ctag t \<and> data (append_elem e t) = data t
   \<and> dir (append_elem e t) = dir t \<and> curline (append_elem e t) = curline t \<and> p (append_elem e t) = p t"
  by (simp add: append_elem_def)

lemma metaTag_frame:
  "metaTag tag t = Inr t' \<Longrightarrow> data t' = data t \<and> dir t' = dir t"
  by (auto simp: metaTag_def Let_def set_tags_def split: if_splits)

lemma readTag_frame:
  assumes "readTag t = Inr (tag, t')"
  shows "otag t' = otag t \<and> ctag t' = ctag t \<and> data t' = data t \<and> dir t' = dir t \<and> elems t' = elems t"
  using readTag_cases [OF assms] readString_frame by blast

lemma parse_keeps_delimiters:
  "(\<forall>t t'. parse n en t = Return t' \<longrightarrow> delimitersNonEmpty t \<longrightarrow> delimitersNonEmpty t')
   \<and> (\<forall>sec t t' sec'. parseSection n en sec t = Return (t', sec') \<longrightarrow>
          delimitersNonEmpty t \<longrightarrow> delimitersNonEmpty t')"
proof (rule parse_invariant)
  show "\<And>s t0 x e t1. readString s t0 = Inr (x, e, t1) \<Longrightarrow> delimitersNonEmpty t0 \<Longrightarrow> delimitersNonEmpty t1"
    using readString_frame by (simp add: delimitersNonEmpty_def)
  show "\<And>t0. delimitersNonEmpty t0 \<Longrightarrow> delimitersNonEmpty (skipNewline t0)"
    by (simp add: delimitersNonEmpty_def skipNewline_frame)
  show "\<And>el t0. delimitersNonEmpty t0 \<Longrightarrow> delimitersNonEmpty (append_elem el t0)"
    by (simp add: delimitersNonEmpty_def append_elem_frame)
  show "\<And>tag t0 t1. metaTag tag t0 = Inr t1 \<Longrightarrow> delimitersNonEmpty t0 \<Longrightarrow> delimitersNonEmpty t1"
    using metaTag_nonempty by (simp add: delimitersNonEmpty_def)
qed

lemma parse_keeps_dir:
  "(\<forall>t t'. parse n en t = Return t' \<longrightarrow> (data t = d \<and> dir t = dr) \<longrightarrow> (data t' = d \<and> dir t' = dr))
   \<and> (\<forall>sec t t' sec'. parseSection n en sec t = Return (t', sec') \<longrightarrow>
          (data t = d \<and> dir t = dr) \<longrightarrow> (data t' = d \<and> dir t' = dr))"
proof (rule parse_invariant)
  show "\<And>s t0 x e t1. readString s t0 = Inr (x, e, t1) \<Longrightarrow> data t0 = d \<and> dir t0 = dr \<Longrightarrow> data t1 = d \<and> dir t1 = dr"
    using readString_frame by simp
  show "\<And>t0. data t0 = d \<and> dir t0 = dr \<Longrightarrow> data (skipNewline t0) = d \<and> dir (skipNewline t0) = dr"
    by (simp add: skipNewline_frame)
  show "\<And>el t0. data t0 = d \<and> dir t0 = dr \<Longrightarrow> data (append_elem el t0) = d \<and> dir (append_elem el t0) = dr"
    by (simp add: append_elem_frame)
  show "\<And>tag t0 t1. metaTag tag t0 = Inr t1 \<Longrightarrow> data t0 = d \<and> dir t0 = dr \<Longrightarrow> data t1 = d \<and> dir t1 = dr"
    using metaTag_frame by simp
qed

lemma parse_at_tag:
  assumes "readString (otag t) t = Inr (tx, False, t1)"
    and "readTag (append_elem (TextElement (take (length tx - length (otag t1)) tx)) t1) = Inr (tag, t3)"
  shows "tag ! 0 = CHR ''='' \<Longrightarrow>
           parse (Suc n) en t = (case metaTag tag t3 of Inl e \<Rightarrow> Fail e | Inr t4 \<Rightarrow> parse n en t4)"
    and "tag ! 0 = CHR ''>'' \<Longrightarrow>
           parse (Suc n) en t =
             (case parsePartial n en t3 (TrimSpace (drop 1 tag)) of
                OutOfFuel \<Rightarrow> OutOfFuel
              | Fail e \<Rightarrow> Fail e
              | Return partial \<Rightarrow> parse n en (append_elem (TemplateElement partial) t3))"
    and "tag ! 0 = CHR ''#'' \<or> tag ! 0 = CHR ''^'' \<Longrightarrow>
           parse (Suc n) en t =
             (case parseSection n en (SectionElement (TrimSpace (drop 1 tag)) (tag ! 0 = CHR ''^'') (curline t3) [])
                     (skipNewline t3) of
                OutOfFuel \<Rightarrow> OutOfFuel
              | Fail e \<Rightarrow> Fail e
              | Return (t5, se') \<Rightarrow> parse n en (append_elem se' t5))"
  using assms
  by (auto simp: parse.simps(2) [of n en t] parseIter_def Let_def skipNewline_frame
           split: sum.splits result.splits)

lemma parseSection_at_tag:
  assumes "readString (otag t) t = Inr (tx, False, t1)"
    and "readTag t1 = Inr (tag, t3)"
  shows "tag ! 0 = CHR ''='' \<Longrightarrow>
           parseSection (Suc n) en sec t =
             (case metaTag tag t3 of
                Inl e \<Rightarrow> Fail e
              | Inr t4 \<Rightarrow> parseSection n en (append_sec (TextElement (take (length tx - length (otag t1)) tx)) sec) t4)"
    and "tag ! 0 = CHR ''>'' \<Longrightarrow>
           parseSection (Suc n) en sec t =
             (case parsePartial n en t3 (TrimSpace (drop 1 tag)) of
                OutOfFuel \<Rightarrow> OutOfFuel
              | Fail e \<Rightarrow> Fail e
              | Return partial \<Rightarrow>
                  parseSection n en
                    (append_sec (TemplateElement partial)
                       (append_sec (TextElement (take (length tx - length (otag t1)) tx)) sec)) t3)"
    and "tag ! 0 = CHR ''#'' \<or> tag ! 0 = CHR ''^'' \<Longrightarrow>
           parseSection (Suc n) en sec t =
             (case parseSection n en (SectionElement (TrimSpace (drop 1 tag)) (tag ! 0 = CHR ''^'') (curline t3) [])
                     (skipNewline t3) of
                OutOfFuel \<Rightarrow> OutOfFuel
              | Fail e \<Rightarrow> Fail e
              | Return (t5, se') \<Rightarrow>
                  parseSection n en
                    (append_sec se' (append_sec (TextElement (take (length tx - length (otag t1)) tx)) sec)) t5)"
  using assms
  by (auto simp: parseSection.simps(2) [of n en sec t] parseSectionIter_def Let_def skipNewline_frame
           split: sum.splits result.splits)


lemma firstOpen_first:
  "(\<forall>x\<in>set pre. \<not> canOpen en x) \<Longrightarrow> canOpen en f \<Longrightarrow> firstOpen en (pre @ f # post) = f"
  by (induction pre) simp_all

lemma firstOpen_none:
  "(\<forall>x\<in>set fs. \<not> canOpen en x) \<Longrightarrow> firstOpen en fs = []"
  by (induction fs) simp_all

lemma elems_after_tag:
  assumes "readString (otag t) t = Inr (tx, False, t1)"
    and "readTag (append_elem e t1) = Inr (tag, t3)"
  shows "t3 = Template (data t) (otag t) (ctag t) (p t3) (curline t3) (dir t) (elems t @ [e])"
proof -
  have a: "otag t1 = otag t \<and> ctag t1 = ctag t \<and> data t1 = data t \<and> dir t1 = dir t \<and> elems t1 = elems t"
    using readString_frame [OF assms(1)] .
  have b: "otag t3 = otag (append_elem e t1) \<and> ctag t3 = ctag (append_elem e t1) \<and> data t3 = data (append_elem e t1)
           \<and> dir t3 = dir (append_elem e t1) \<and> elems t3 = elems (append_elem e t1)"
    using readTag_frame [OF assms(2)] .
  have c: "elems (append_elem e t1) = elems t1 @ [e]" by (simp add: append_elem_def)
  show ?thesis
    using a b c by (cases t3) (simp add: append_elem_frame)
qed

lemma state_after_section_tag:
  assumes "readString (otag t) t = Inr (tx, False, t1)"
    and "readTag t1 = Inr (tag, t3)"
  shows "t3 = Template (data t) (otag t) (ctag t) (p t3) (curline t3) (dir t) (elems t)"
proof -
  have a: "otag t1 = otag t \<and> ctag t1 = ctag t \<and> data t1 = data t \<and> dir t1 = dir t \<and> elems t1 = elems t"
    using readString_frame [OF assms(1)] .
  have b: "otag t3 = otag t1 \<and> ctag t3 = ctag t1 \<and> data t3 = data t1 \<and> dir t3 = dir t1 \<and> elems t3 = elems t1"
    using readTag_frame [OF assms(2)] .
  show ?thesis
    using a b by (cases t3) simp
qed

section \<open>Partials\<close>

text \<open>
  Claim C5. For a partial reference \<open>name\<close> parsed in a template with base directory
  \<open>dir t\<close>, \<^verbatim>\<open>parsePartial\<close> tries the six paths in the order of the claim, where
  \<^verbatim>\<open>D/N\<close> is \<^verbatim>\<open>path.Join(D, N)\<close>. The first one that opens is parsed by \<^verbatim>\<open>ParseFile\<close>, which
  starts a parse of the file's text with the file's own directory as the base, and parsing
  never changes the base. When that parse returns a template, within some fuel and so within
  any larger one, the parse of the referring template goes on with the template appended as an
  element after the text that stood before the partial tag: to the elements of the template
  at the top level, to the elements of the section inside a section, whose name and start
  line stay as they are. When that parse fails, so does the parse of the referring template,
  and when none of the six paths opens the failure is the error that the partial \<open>name\<close>
  could not be found. Two files are parsed in full: a page that refers to \<^verbatim>\<open>header\<close> at
  the top level, and one that refers to it inside a section.
\<close>

theorem C5_partial_resolution:
  "filenames en t name =
     [pathJoin en (dir t) name, pathJoin en (dir t) (name @ ''.mustache''),
      pathJoin en (dir t) (name @ ''.stache''), name, name @ ''.mustache'', name @ ''.stache'']
   \<and> (filenames en t name = pre @ f # post \<and> (\<forall>x\<in>set pre. \<not> canOpen en x) \<and> canOpen en f \<and> f \<noteq> [] \<longrightarrow>
        parsePartial n en t name = ParseFile n en f)
   \<and> ((\<forall>x\<in>set (filenames en t name). \<not> canOpen en x) \<longrightarrow>
        parsePartial n en t name = Fail (CouldNotFindPartial name))
   \<and> ParseFile n en f =
        (case readFile en f of
           Inl msg \<Rightarrow> Fail (ReadFileError msg)
         | Inr d \<Rightarrow> parse n en (Template d ''{{'' ''}}'' 0 1 (pathSplitDir f) []))
   \<and> (parse n en t = Return t' \<longrightarrow> dir t' = dir t)
   \<and> (ParseFile n en f = Return partial \<longrightarrow> ParseFile (n + k) en f = Return partial)
   \<and> (readString (otag t) t = Inr (tx, False, t1)
        \<and> readTag (append_elem (TextElement (take (length tx - length (otag t1)) tx)) t1) = Inr (tag, t3)
        \<and> tag ! 0 = CHR ''>'' \<longrightarrow>
        (parsePartial n en t3 (TrimSpace (drop 1 tag)) = Return partial \<longrightarrow>
           parse (Suc n) en t =
             parse n en (Template (data t) (otag t) (ctag t) (p t3) (curline t3) (dir t)
                           (elems t @ [TextElement (take (length tx - length (otag t1)) tx), TemplateElement partial])))
        \<and> (parsePartial n en t3 (TrimSpace (drop 1 tag)) = Fail e \<longrightarrow> parse (Suc n) en t = Fail e))
   \<and> (readString (otag t) t = Inr (tx, False, t1) \<and> readTag t1 = Inr (tag, t3) \<and> tag ! 0 = CHR ''>'' \<longrightarrow>
        (parsePartial n en t3 (TrimSpace (drop 1 tag)) = Return partial \<longrightarrow>
           parseSection (Suc n) en sec t =
             parseSection n en
               (SectionElement (sname sec) (inverted sec) (startline sec)
                  (selems sec @ [TextElement (take (length tx - length (otag t1)) tx), TemplateElement partial]))
               (Template (data t) (otag t) (ctag t) (p t3) (curline t3) (dir t) (elems t)))
        \<and> (parsePartial n en t3 (TrimSpace (drop 1 tag)) = Fail e \<longrightarrow> parseSection (Suc n) en sec t = Fail e))
   \<and> ParseFile (10 + k) tplFiles ''tpl/page'' =
       Return (Template ''{{>header}}'' ''{{'' ''}}'' 11 1 ''tpl/''
                 [TextElement [],
                  TemplateElement (Template ''Hi'' ''{{'' ''}}'' 0 1 ''tpl/'' [TextElement ''Hi'']),
                  TextElement []])
   \<and> ParseFile (10 + k) tplFiles ''tpl/list'' =
       Return (Template ''{{#s}}{{>header}}{{/s}}'' ''{{'' ''}}'' 23 1 ''tpl/''
                 [TextElement [],
                  SectionElement ''s'' False 1
                    [TextElement [],
                     TemplateElement (Template ''Hi'' ''{{'' ''}}'' 0 1 ''tpl/'' [TextElement ''Hi'']),
                     TextElement []],
                  TextElement []])"
proof -
  have c1: "filenames en t name =
     [pathJoin en (dir t) name, pathJoin en (dir t) (name @ ''.mustache''),
      pathJoin en (dir t) (name @ ''.stache''), name, name @ ''.mustache'', name @ ''.stache'']"
    by (simp add: filenames_def)
  have c2: "filenames en t name = pre @ f # post \<and> (\<forall>x\<in>set pre. \<not> canOpen en x) \<and> canOpen en f \<and> f \<noteq> [] \<longrightarrow>
        parsePartial n en t name = ParseFile n en f"
  proof
    assume a: "filenames en t name = pre @ f # post \<and> (\<forall>x\<in>set pre. \<not> canOpen en x) \<and> canOpen en f \<and> f \<noteq> []"
    then have "firstOpen en (filenames en t name) = f"
      using firstOpen_first [of pre en f post] by simp
    with a show "parsePartial n en t name = ParseFile n en f"
      by (simp add: parsePartial.simps Let_def)
  qed
  have c3: "(\<forall>x\<in>set (filenames en t name). \<not> canOpen en x) \<longrightarrow>
        parsePartial n en t name = Fail (CouldNotFindPartial name)"
  proof
    assume "\<forall>x\<in>set (filenames en t name). \<not> canOpen en x"
    then have "firstOpen en (filenames en t name) = []"
      by (rule firstOpen_none)
    then show "parsePartial n en t name = Fail (CouldNotFindPartial name)"
      by (simp add: parsePartial.simps Let_def)
  qed
  have c4: "ParseFile n en f =
        (case readFile en f of
           Inl msg \<Rightarrow> Fail (ReadFileError msg)
         | Inr d \<Rightarrow> parse n en (Template d ''{{'' ''}}'' 0 1 (pathSplitDir f) []))"
    by (simp add: ParseFile.simps)
  have c5: "parse n en t = Return t' \<longrightarrow> dir t' = dir t"
    using parse_keeps_dir [of n en "data t" "dir t"] by blast
  have c6: "ParseFile n en f = Return partial \<longrightarrow> ParseFile (n + k) en f = Return partial"
    using ParseFile_more_fuel [of n en f k] by simp
  have c7: "readString (otag t) t = Inr (tx, False, t1)
        \<and> readTag (append_elem (TextElement (take (length tx - length (otag t1)) tx)) t1) = Inr (tag, t3)
        \<and> tag ! 0 = CHR ''>'' \<longrightarrow>
        (parsePartial n en t3 (TrimSpace (drop 1 tag)) = Return partial \<longrightarrow>
           parse (Suc n) en t =
             parse n en (Template (data t) (otag t) (ctag t) (p t3) (curline t3) (dir t)
                           (elems t @ [TextElement (take (length tx - length (otag t1)) tx), TemplateElement partial])))
        \<and> (parsePartial n en t3 (TrimSpace (drop 1 tag)) = Fail e \<longrightarrow> parse (Suc n) en t = Fail e)"
  proof (intro impI conjI)
    assume a: "readString (otag t) t = Inr (tx, False, t1)
        \<and> readTag (append_elem (TextElement (take (length tx - length (otag t1)) tx)) t1) = Inr (tag, t3)
        \<and> tag ! 0 = CHR ''>''"
    then have r1: "readString (otag t) t = Inr (tx, False, t1)"
      and r2: "readTag (append_elem (TextElement (take (length tx - length (otag t1)) tx)) t1) = Inr (tag, t3)"
      and r3: "tag ! 0 = CHR ''>''" by blast+
    note st = parse_at_tag(2) [OF r1 r2 r3, of n en]
    have t3: "t3 = Template (data t) (otag t) (ctag t) (p t3) (curline t3) (dir t)
                     (elems t @ [TextElement (take (length tx - length (otag t1)) tx)])"
      by (rule elems_after_tag [OF r1 r2])
    have ap: "append_elem (TemplateElement partial) t3 =
                Template (data t) (otag t) (ctag t) (p t3) (curline t3) (dir t)
                  (elems t @ [TextElement (take (length tx - length (otag t1)) tx), TemplateElement partial])"
      by (subst t3) (simp add: append_elem_def)
    {
      assume "parsePartial n en t3 (TrimSpace (drop 1 tag)) = Return partial"
      then show "parse (Suc n) en t =
             parse n en (Template (data t) (otag t) (ctag t) (p t3) (curline t3) (dir t)
                           (elems t @ [TextElement (take (length tx - length (otag t1)) tx), TemplateElement partial]))"
        by (simp only: st result.case ap)
    }
    {
      assume "parsePartial n en t3 (TrimSpace (drop 1 tag)) = Fail e"
      then show "parse (Suc n) en t = Fail e"
        by (simp only: st result.case)
    }
  qed
  have c8: "readString (otag t) t = Inr (tx, False, t1) \<and> readTag t1 = Inr (tag, t3) \<and> tag ! 0 = CHR ''>'' \<longrightarrow>
        (parsePartial n en t3 (TrimSpace (drop 1 tag)) = Return partial \<longrightarrow>
           parseSection (Suc n) en sec t =
             parseSection n en
               (SectionElement (sname sec) (inverted sec) (startline sec)
                  (selems sec @ [TextElement (take (length tx - length (otag t1)) tx), TemplateElement partial]))
               (Template (data t) (otag t) (ctag t) (p t3) (curline t3) (dir t) (elems t)))
        \<and> (parsePartial n en t3 (TrimSpace (drop 1 tag)) = Fail e \<longrightarrow> parseSection (Suc n) en sec t = Fail e)"
  proof (intro impI conjI)
    assume a: "readString (otag t) t = Inr (tx, False, t1) \<and> readTag t1 = Inr (tag, t3) \<and> tag ! 0 = CHR ''>''"
    then have r1: "readString (otag t) t = Inr (tx, False, t1)"
      and r2: "readTag t1 = Inr (tag, t3)"
      and r3: "tag ! 0 = CHR ''>''" by blast+
    note st = parseSection_at_tag(2) [OF r1 r2 r3, of n en sec]
    have t3: "t3 = Template (data t) (otag t) (ctag t) (p t3) (curline t3) (dir t) (elems t)"
      by (rule state_after_section_tag [OF r1 r2])
    have ap: "append_sec (TemplateElement partial)
                (append_sec (TextElement (take (length tx - length (otag t1)) tx)) sec) =
              SectionElement (sname sec) (inverted sec) (startline sec)
                  (selems sec @ [TextElement (take (length tx - length (otag t1)) tx), TemplateElement partial])"
      by (simp add: append_sec_def)
    {
      assume "parsePartial n en t3 (TrimSpace (drop 1 tag)) = Return partial"
      then have "parseSection (Suc n) en sec t =
             parseSection n en
               (SectionElement (sname sec) (inverted sec) (startline sec)
                  (selems sec @ [TextElement (take (length tx - length (otag t1)) tx), TemplateElement partial])) t3"
        by (simp only: st result.case ap)
      then show "parseSection (Suc n) en sec t =
             parseSection n en
               (SectionElement (sname sec) (inverted sec) (startline sec)
                  (selems sec @ [TextElement (take (length tx - length (otag t1)) tx), TemplateElement partial]))
               (Template (data t) (otag t) (ctag t) (p t3) (curline t3) (dir t) (elems t))"
        using t3 by simp
    }
    {
      assume "parsePartial n en t3 (TrimSpace (drop 1 tag)) = Fail e"
      then show "parseSection (Suc n) en sec t = Fail e"
        by (simp only: st result.case)
    }
  qed
  have "ParseFile 10 tplFiles ''tpl/page'' =
       Return (Template ''{{>header}}'' ''{{'' ''}}'' 11 1 ''tpl/''
                 [TextElement [],
                  TemplateElement (Template ''Hi'' ''{{'' ''}}'' 0 1 ''tpl/'' [TextElement ''Hi'']),
                  TextElement []])"
    by code_simp
  then have c9: "ParseFile (10 + k) tplFiles ''tpl/page'' =
       Return (Template ''{{>header}}'' ''{{'' ''}}'' 11 1 ''tpl/''
                 [TextElement [],
                  TemplateElement (Template ''Hi'' ''{{'' ''}}'' 0 1 ''tpl/'' [TextElement ''Hi'']),
                  TextElement []])"
    using ParseFile_more_fuel [of 10 tplFiles "''tpl/page''" k] by simp
  have "ParseFile 10 tplFiles ''tpl/list'' =
       Return (Template ''{{#s}}{{>header}}{{/s}}'' ''{{'' ''}}'' 23 1 ''tpl/''
                 [TextElement [],
                  SectionElement ''s'' False 1
                    [TextElement [],
                     TemplateElement (Template ''Hi'' ''{{'' ''}}'' 0 1 ''tpl/'' [TextElement ''Hi'']),
                     TextElement []],
                  TextElement []])"
    by code_simp
  then have c10: "ParseFile (10 + k) tplFiles ''tpl/list'' =
       Return (Template ''{{#s}}{{>header}}{{/s}}'' ''{{'' ''}}'' 23 1 ''tpl/''
                 [TextElement [],
                  SectionElement ''s'' False 1
                    [TextElement [],
                     TemplateElement (Template ''Hi'' ''{{'' ''}}'' 0 1 ''tpl/'' [TextElement ''Hi'']),
                     TextElement []],
                  TextElement []])"
    using ParseFile_more_fuel [of 10 tplFiles "''tpl/list''" k] by simp
  show ?thesis
    by (intro conjI) (fact c1, fact c2, fact c3, fact c4, fact c5, fact c6, fact c7, fact c8, fact c9, fact c10)
qed


theorem C5_partial_resolution_witness:
  "parsePartial 5 tplFiles (Template ''{{>header}}'' ''{{'' ''}}'' 11 1 ''tpl/'' [TextElement []]) ''header''
     = ParseFile 5 tplFiles ''tpl/header.mustache''
   \<and> parsePartial 5 noFiles (Template ''{{>header}}'' ''{{'' ''}}'' 11 1 ''tpl/'' [TextElement []]) ''header''
     = Fail (CouldNotFindPartial ''header'')
   \<and> parse 6 tplFiles (Template ''{{>header}}'' ''{{'' ''}}'' 0 1 ''tpl/'' []) =
       parse 5 tplFiles
         (Template ''{{>header}}'' ''{{'' ''}}'' 11 1 ''tpl/''
            [TextElement [], TemplateElement (Template ''Hi'' ''{{'' ''}}'' 0 1 ''tpl/'' [TextElement ''Hi''])])
   \<and> parseSection 6 tplFiles (SectionElement ''s'' False 1 [])
         (Template ''{{#s}}{{>header}}{{/s}}'' ''{{'' ''}}'' 6 1 ''tpl/'' [TextElement []]) =
       parseSection 5 tplFiles
         (SectionElement ''s'' False 1
            [TextElement [], TemplateElement (Template ''Hi'' ''{{'' ''}}'' 0 1 ''tpl/'' [TextElement ''Hi''])])
         (Template ''{{#s}}{{>header}}{{/s}}'' ''{{'' ''}}'' 17 1 ''tpl/'' [TextElement []])"
proof -
  let ?t = "Template ''{{>header}}'' ''{{'' ''}}'' 11 1 ''tpl/'' [TextElement []]"
  let ?hi = "Template ''Hi'' ''{{'' ''}}'' 0 1 ''tpl/'' [TextElement ''Hi'']"
  have h: "filenames tplFiles ?t ''header'' =
             [''tpl/header''] @ ''tpl/header.mustache'' # [''tpl/header.stache'', ''header'', ''header.mustache'', ''header.stache'']
           \<and> (\<forall>x\<in>set [''tpl/header'']. \<not> canOpen tplFiles x)
           \<and> canOpen tplFiles ''tpl/header.mustache'' \<and> ''tpl/header.mustache'' \<noteq> []"
    by (simp add: filenames_def tplFiles_def joinPath_def)
  have r1: "parsePartial 5 tplFiles ?t ''header'' = ParseFile 5 tplFiles ''tpl/header.mustache''"
    by (rule mp [OF C5_partial_resolution
          [where en = tplFiles and t = ?t and name = "''header''" and pre = "[''tpl/header'']"
             and f = "''tpl/header.mustache''"
             and post = "[''tpl/header.stache'', ''header'', ''header.mustache'', ''header.stache'']"
             and n = 5,
           THEN conjunct2, THEN conjunct1] h])
  have n: "\<forall>x\<in>set (filenames noFiles ?t ''header''). \<not> canOpen noFiles x"
    by (simp add: noFiles_def)
  have r2: "parsePartial 5 noFiles ?t ''header'' = Fail (CouldNotFindPartial ''header'')"
    by (rule mp [OF C5_partial_resolution
          [where en = noFiles and t = ?t and name = "''header''" and n = 5,
           THEN conjunct2, THEN conjunct2, THEN conjunct1] n])
  let ?a = "Template ''{{>header}}'' ''{{'' ''}}'' 0 1 ''tpl/'' []"
  let ?a1 = "Template ''{{>header}}'' ''{{'' ''}}'' 2 1 ''tpl/'' []"
  have a1: "readString (otag ?a) ?a = Inr (''{{'', False, ?a1)" by code_simp
  have a2: "readTag (append_elem (TextElement (take (length ''{{'' - length (otag ?a1)) ''{{'')) ?a1) = Inr (''>header'', ?t)"
    by code_simp
  have a3: "parsePartial 5 tplFiles ?t (TrimSpace (drop 1 ''>header'')) = Return ?hi"
    by code_simp
  have ha: "readString (otag ?a) ?a = Inr (''{{'', False, ?a1)
        \<and> readTag (append_elem (TextElement (take (length ''{{'' - length (otag ?a1)) ''{{'')) ?a1) = Inr (''>header'', ?t)
        \<and> ''>header'' ! 0 = CHR ''>''"
    using a1 a2 by simp
  have "parse (Suc 5) tplFiles ?a =
             parse 5 tplFiles (Template (data ?a) (otag ?a) (ctag ?a) (p ?t) (curline ?t) (dir ?a)
                           (elems ?a @ [TextElement (take (length ''{{'' - length (otag ?a1)) ''{{''), TemplateElement ?hi]))"
    by (rule mp [OF mp [OF C5_partial_resolution
          [where en = tplFiles and t = ?a and tx = "''{{''" and ?t1.0 = ?a1 and tag = "''>header''" and ?t3.0 = ?t
             and n = 5 and partial = ?hi,
           THEN conjunct2, THEN conjunct2, THEN conjunct2, THEN conjunct2, THEN conjunct2, THEN conjunct2,
           THEN conjunct1] ha, THEN conjunct1] a3])
  then have r3: "parse 6 tplFiles ?a =
       parse 5 tplFiles (Template ''{{>header}}'' ''{{'' ''}}'' 11 1 ''tpl/'' [TextElement [], TemplateElement ?hi])"
    by (simp add: eval_nat_numeral)
  let ?b = "Template ''{{#s}}{{>header}}{{/s}}'' ''{{'' ''}}'' 6 1 ''tpl/'' [TextElement []]"
  let ?b1 = "Template ''{{#s}}{{>header}}{{/s}}'' ''{{'' ''}}'' 8 1 ''tpl/'' [TextElement []]"
  let ?b3 = "Template ''{{#s}}{{>header}}{{/s}}'' ''{{'' ''}}'' 17 1 ''tpl/'' [TextElement []]"
  let ?sec = "SectionElement ''s'' False 1 []"
  have b1: "readString (otag ?b) ?b = Inr (''{{'', False, ?b1)" by code_simp
  have b2: "readTag ?b1 = Inr (''>header'', ?b3)" by code_simp
  have b3: "parsePartial 5 tplFiles ?b3 (TrimSpace (drop 1 ''>header'')) = Return ?hi"
    by code_simp
  have hb: "readString (otag ?b) ?b = Inr (''{{'', False, ?b1) \<and> readTag ?b1 = Inr (''>header'', ?b3)
        \<and> ''>header'' ! 0 = CHR ''>''"
    using b1 b2 by simp
  have "parseSection (Suc 5) tplFiles ?sec ?b =
             parseSection 5 tplFiles
               (SectionElement (sname ?sec) (inverted ?sec) (startline ?sec)
                  (selems ?sec @ [TextElement (take (length ''{{'' - length (otag ?b1)) ''{{''), TemplateElement ?hi]))
               (Template (data ?b) (otag ?b) (ctag ?b) (p ?b3) (curline ?b3) (dir ?b) (elems ?b))"
    by (rule mp [OF mp [OF C5_partial_resolution
          [where en = tplFiles and t = ?b and tx = "''{{''" and ?t1.0 = ?b1 and tag = "''>header''" and ?t3.0 = ?b3
             and n = 5 and partial = ?hi and sec = ?sec,
           THEN conjunct2, THEN conjunct2, THEN conjunct2, THEN conjunct2, THEN conjunct2, THEN conjunct2,
           THEN conjunct2, THEN conjunct1] hb, THEN conjunct1] b3])
  then have r4: "parseSection 6 tplFiles ?sec ?b =
       parseSection 5 tplFiles (SectionElement ''s'' False 1 [TextElement [], TemplateElement ?hi]) ?b3"
    by (simp add: eval_nat_numeral)
  show ?thesis
    by (intro conjI) (fact r1, fact r2, fact r3, fact r4)
qed


text \<open>
  A file that includes itself is read and parsed again at every level: the Go code does not
  return, and the model runs out of every fuel.
\<close>

lemma loop_step:
  "parse (Suc n) loopFiles (Template ''{{>loop}}'' ''{{'' ''}}'' 0 1 [] []) =
     (case ParseFile n loopFiles ''loop'' of
        OutOfFuel \<Rightarrow> OutOfFuel | Fail e \<Rightarrow> Fail e
      | Return partial \<Rightarrow> parse n loopFiles (append_elem (TemplateElement partial) (Template ''{{>loop}}'' ''{{'' ''}}'' 9 1 [] [TextElement []])))"
proof -
  let ?t = "Template ''{{>loop}}'' ''{{'' ''}}'' 0 1 [] []"
  let ?t1 = "Template ''{{>loop}}'' ''{{'' ''}}'' 2 1 [] []"
  let ?t3 = "Template ''{{>loop}}'' ''{{'' ''}}'' 9 1 [] [TextElement []]"
  have r1: "readString (otag ?t) ?t = Inr (''{{'', False, ?t1)" by code_simp
  have r2: "readTag (append_elem (TextElement (take (length ''{{'' - length (otag ?t1)) ''{{'')) ?t1) = Inr (''>loop'', ?t3)"
    by code_simp
  have tr: "TrimSpace (drop 1 ''>loop'') = ''loop''" by code_simp
  have pp: "parsePartial n loopFiles ?t3 ''loop'' = ParseFile n loopFiles ''loop''"
    by (simp add: parsePartial.simps Let_def filenames_def loopFiles_def joinPath_def)
  show ?thesis
    using parse_at_tag(2) [OF r1 r2, of n loopFiles] by (simp only: tr pp) simp
qed

lemma self_including_partial:
  "ParseFile n loopFiles ''loop'' = OutOfFuel"
proof (induction n)
  case 0
  show ?case by (simp add: ParseFile.simps loopFiles_def pathSplitDir_def parse.simps)
next
  case (Suc n)
  have "ParseFile (Suc n) loopFiles ''loop'' = parse (Suc n) loopFiles (Template ''{{>loop}}'' ''{{'' ''}}'' 0 1 [] [])"
    by (simp add: ParseFile.simps loopFiles_def pathSplitDir_def)
  also have "\<dots> = OutOfFuel" by (simp only: loop_step Suc result.case)
  finally show ?case .
qed


section \<open>Unclosed sections\<close>




text \<open>
  The line break skipped after a section's opening tag is not added to the line counter: the
  section \<^verbatim>\<open>b\<close>, opened on the second line, is reported with line 1.
\<close>

lemma line_counter_after_skipped_newline:
  "ParseString 10 noFiles (''{{#a}}'' @ [CHR 0x0A] @ ''{{#b}}x'') = Fail (ParseError 1 ''Section b has no closing tag'')"
  by code_simp


section \<open>Delimiter-change tags\<close>

text \<open>
  Claim C7, as amended. A tag that starts with \<^verbatim>\<open>=\<close> and does not end with \<^verbatim>\<open>=\<close> fails the
  parse with the parse error "Invalid meta tag". When it ends with \<^verbatim>\<open>=\<close> and the trimmed text
  between the two has a space, the text before the first space becomes the open delimiter and
  the text after it the close delimiter. When that text has no space the tag is ignored: the
  parse goes on with the delimiters as they were (the claim says every malformed form is a
  parse error). In both parse loops the outcome of the tag is the outcome of this step. The
  one-character tag \<^verbatim>\<open>=\<close> is left out: the slice \<^verbatim>\<open>tag[1 : len(tag)-1]\<close> panics on it.
\<close>

theorem C7_delimiter_change_tag:
  "(tag ! (length tag - 1) \<noteq> CHR ''='' \<longrightarrow>
      metaTag tag t = Inl (ParseError (curline t) ''Invalid meta tag''))
   \<and> (tag ! (length tag - 1) = CHR ''='' \<and> 2 \<le> length tag
        \<and> CHR '' '' \<in> set (TrimSpace (take (length tag - 2) (drop 1 tag))) \<longrightarrow>
      metaTag tag t =
        Inr (set_tags (takeWhile (\<lambda>c. c \<noteq> CHR '' '') (TrimSpace (take (length tag - 2) (drop 1 tag))))
                      (tl (dropWhile (\<lambda>c. c \<noteq> CHR '' '') (TrimSpace (take (length tag - 2) (drop 1 tag))))) t))
   \<and> (tag ! (length tag - 1) = CHR ''='' \<and> 2 \<le> length tag
        \<and> CHR '' '' \<notin> set (TrimSpace (take (length tag - 2) (drop 1 tag))) \<longrightarrow>
      metaTag tag t = Inr t)
   \<and> (readString (otag t0) t0 = Inr (tx, False, t1)
        \<and> readTag (append_elem (TextElement (take (length tx - length (otag t1)) tx)) t1) = Inr (tg, t3)
        \<and> tg ! 0 = CHR ''='' \<longrightarrow>
      parse (Suc n) en t0 = (case metaTag tg t3 of Inl e \<Rightarrow> Fail e | Inr t4 \<Rightarrow> parse n en t4))
   \<and> (readString (otag t0) t0 = Inr (tx, False, t1) \<and> readTag t1 = Inr (tg, t3) \<and> tg ! 0 = CHR ''='' \<longrightarrow>
      parseSection (Suc n) en sec t0 =
        (case metaTag tg t3 of
           Inl e \<Rightarrow> Fail e
         | Inr t4 \<Rightarrow> parseSection n en (append_sec (TextElement (take (length tx - length (otag t1)) tx)) sec) t4))"
proof (intro conjI impI)
  assume "tag ! (length tag - 1) \<noteq> CHR ''=''"
  then show "metaTag tag t = Inl (ParseError (curline t) ''Invalid meta tag'')"
    by (rule metaTag_invalid)
next
  assume "tag ! (length tag - 1) = CHR ''='' \<and> 2 \<le> length tag
        \<and> CHR '' '' \<in> set (TrimSpace (take (length tag - 2) (drop 1 tag)))"
  then show "metaTag tag t =
        Inr (set_tags (takeWhile (\<lambda>c. c \<noteq> CHR '' '') (TrimSpace (take (length tag - 2) (drop 1 tag))))
                      (tl (dropWhile (\<lambda>c. c \<noteq> CHR '' '') (TrimSpace (take (length tag - 2) (drop 1 tag))))) t)"
    using metaTag_change [of tag t] by blast
next
  assume "tag ! (length tag - 1) = CHR ''='' \<and> 2 \<le> length tag
        \<and> CHR '' '' \<notin> set (TrimSpace (take (length tag - 2) (drop 1 tag)))"
  then show "metaTag tag t = Inr t"
    using metaTag_ignored [of tag t] by blast
next
  assume "readString (otag t0) t0 = Inr (tx, False, t1)
        \<and> readTag (append_elem (TextElement (take (length tx - length (otag t1)) tx)) t1) = Inr (tg, t3)
        \<and> tg ! 0 = CHR ''=''"
  then show "parse (Suc n) en t0 = (case metaTag tg t3 of Inl e \<Rightarrow> Fail e | Inr t4 \<Rightarrow> parse n en t4)"
    using parse_at_tag(1) [of t0 tx t1 tg t3 n en] by blast
next
  assume "readString (otag t0) t0 = Inr (tx, False, t1) \<and> readTag t1 = Inr (tg, t3) \<and> tg ! 0 = CHR ''=''"
  then show "parseSection (Suc n) en sec t0 =
        (case metaTag tg t3 of
           Inl e \<Rightarrow> Fail e
         | Inr t4 \<Rightarrow> parseSection n en (append_sec (TextElement (take (length tx - length (otag t1)) tx)) sec) t4)"
    using parseSection_at_tag(1) [of t0 tx t1 tg t3 n en sec] by blast
qed

theorem C7_delimiter_change_tag_witness:
  "metaTag ''=<% %>'' (Template ''{{=<% %>}}'' ''{{'' ''}}'' 10 1 [] [TextElement []])
     = Inl (ParseError 1 ''Invalid meta tag'')
   \<and> metaTag ''=<% %>='' (Template ''{{=<% %>=}}'' ''{{'' ''}}'' 11 1 [] [TextElement []])
     = Inr (Template ''{{=<% %>=}}'' ''<%'' ''%>'' 11 1 [] [TextElement []])
   \<and> metaTag ''=abc='' (Template ''{{=abc=}}'' ''{{'' ''}}'' 9 1 [] [TextElement []])
     = Inr (Template ''{{=abc=}}'' ''{{'' ''}}'' 9 1 [] [TextElement []])
   \<and> ParseString 10 noFiles ''{{=<% %>}}'' = Fail (ParseError 1 ''Invalid meta tag'')"
proof -
  let ?a = "Template ''{{=<% %>}}'' ''{{'' ''}}'' 10 1 [] [TextElement []]"
  let ?b = "Template ''{{=<% %>=}}'' ''{{'' ''}}'' 11 1 [] [TextElement []]"
  let ?c = "Template ''{{=abc=}}'' ''{{'' ''}}'' 9 1 [] [TextElement []]"
  have t1: "TrimSpace ''<% %>'' = ''<% %>''"
    by code_simp
  have t2: "TrimSpace ''abc'' = ''abc''"
    by code_simp
  have h1: "''=<% %>'' ! (length ''=<% %>'' - 1) \<noteq> CHR ''=''"
    by simp
  have h2: "''=<% %>='' ! (length ''=<% %>='' - 1) = CHR ''='' \<and> 2 \<le> length ''=<% %>=''
        \<and> CHR '' '' \<in> set (TrimSpace (take (length ''=<% %>='' - 2) (drop 1 ''=<% %>='')))"
    by (simp add: t1)
  have h3: "''=abc='' ! (length ''=abc='' - 1) = CHR ''='' \<and> 2 \<le> length ''=abc=''
        \<and> CHR '' '' \<notin> set (TrimSpace (take (length ''=abc='' - 2) (drop 1 ''=abc='')))"
    by (simp add: t2)
  have r1: "metaTag ''=<% %>'' ?a = Inl (ParseError (curline ?a) ''Invalid meta tag'')"
    by (rule mp [OF C7_delimiter_change_tag [where tag = "''=<% %>''" and t = ?a, THEN conjunct1] h1])
  have r2: "metaTag ''=<% %>='' ?b =
        Inr (set_tags (takeWhile (\<lambda>c. c \<noteq> CHR '' '') (TrimSpace (take (length ''=<% %>='' - 2) (drop 1 ''=<% %>=''))))
                      (tl (dropWhile (\<lambda>c. c \<noteq> CHR '' '') (TrimSpace (take (length ''=<% %>='' - 2) (drop 1 ''=<% %>=''))))) ?b)"
    by (rule mp [OF C7_delimiter_change_tag [where tag = "''=<% %>=''" and t = ?b,
          THEN conjunct2, THEN conjunct1] h2])
  have r3: "metaTag ''=abc='' ?c = Inr ?c"
    by (rule mp [OF C7_delimiter_change_tag [where tag = "''=abc=''" and t = ?c,
          THEN conjunct2, THEN conjunct2, THEN conjunct1] h3])
  have r4: "ParseString 10 noFiles ''{{=<% %>}}'' = Fail (ParseError 1 ''Invalid meta tag'')"
    by code_simp
  show ?thesis
    using r1 r2 r3 r4 by (simp add: t1 set_tags_def)
qed

text \<open>
  The tag \<^verbatim>\<open>{{=abc=}}\<close> has no space between its delimiters, and the parse returns a template,
  with the delimiters unchanged, instead of a parse error.
\<close>

theorem C7_malformed_tag_ignored_counterexample:
  "ParseString 10 noFiles ''{{=abc=}}'' =
     Return (Template ''{{=abc=}}'' ''{{'' ''}}'' 9 1 [] [TextElement [], TextElement []])"
  by code_simp

text \<open>The tag \<^verbatim>\<open>{{=}}\<close> ends the parse with a panic, which is not a parse error.\<close>

lemma bare_equals_tag_panics:
  "ParseString 10 noFiles ''{{=}}'' = Fail (Panic ''slice bounds out of range'')"
  by code_simp


text \<open>
  Claim C8, as amended. The delimiters a parse starts with are non-empty, a delimiter-change
  tag that is processed leaves them non-empty, and so they are in every template that
  \<^verbatim>\<open>parse\<close>, \<^verbatim>\<open>parseSection\<close>, \<^verbatim>\<open>ParseString\<close> and \<^verbatim>\<open>ParseFile\<close> return. They need not differ
  from each other (the claim says they always do): nothing compares the two.
\<close>

theorem C8_delimiters_non_empty:
  "delimitersNonEmpty (Template d ''{{'' ''}}'' 0 1 dr [])
   \<and> (metaTag tag t = Inr t' \<and> delimitersNonEmpty t \<longrightarrow> delimitersNonEmpty t')
   \<and> (parse n en t = Return t' \<and> delimitersNonEmpty t \<longrightarrow> delimitersNonEmpty t')
   \<and> (parseSection n en sec t = Return (t', sec') \<and> delimitersNonEmpty t \<longrightarrow> delimitersNonEmpty t')
   \<and> (ParseString n en d = Return t' \<longrightarrow> delimitersNonEmpty t')
   \<and> (ParseFile n en f = Return t' \<longrightarrow> delimitersNonEmpty t')"
proof (intro conjI impI)
  show init: "delimitersNonEmpty (Template d ''{{'' ''}}'' 0 1 dr [])" for d dr
    by (simp add: delimitersNonEmpty_def)
  {
    assume "metaTag tag t = Inr t' \<and> delimitersNonEmpty t"
    then show "delimitersNonEmpty t'"
      using metaTag_nonempty [of tag t t'] by (simp add: delimitersNonEmpty_def)
  }
  {
    assume "parse n en t = Return t' \<and> delimitersNonEmpty t"
    then show "delimitersNonEmpty t'"
      using parse_keeps_delimiters [of n en] by blast
  }
  {
    assume "parseSection n en sec t = Return (t', sec') \<and> delimitersNonEmpty t"
    then show "delimitersNonEmpty t'"
      using parse_keeps_delimiters [of n en] by blast
  }
  {
    assume "ParseString n en d = Return t'"
    then have "parse n en (Template d ''{{'' ''}}'' 0 1 (cwd en) []) = Return t'"
      by (simp add: ParseString_def)
    then show "delimitersNonEmpty t'"
      using parse_keeps_delimiters [of n en] init by blast
  }
  {
    assume "ParseFile n en f = Return t'"
    then obtain dt where "parse n en (Template dt ''{{'' ''}}'' 0 1 (pathSplitDir f) []) = Return t'"
      by (auto simp: ParseFile.simps split: sum.splits)
    then show "delimitersNonEmpty t'"
      using parse_keeps_delimiters [of n en] init by blast
  }
qed

theorem C8_delimiters_non_empty_witness:
  "delimitersNonEmpty (Template ''{{=<% %>=}}<%v%>'' ''<%'' ''%>'' 16 1 []
                          [TextElement [], TextElement [], VarElement ''v'' False, TextElement []])"
proof -
  have r: "ParseString 10 noFiles ''{{=<% %>=}}<%v%>'' =
        Return (Template ''{{=<% %>=}}<%v%>'' ''<%'' ''%>'' 16 1 []
                  [TextElement [], TextElement [], VarElement ''v'' False, TextElement []])"
    by code_simp
  show ?thesis
    by (rule mp [OF C8_delimiters_non_empty [where n = 10 and en = noFiles and d = "''{{=<% %>=}}<%v%>''",
          THEN conjunct2, THEN conjunct2, THEN conjunct2, THEN conjunct2, THEN conjunct1] r])
qed

text \<open>After the tag \<^verbatim>\<open>{{=| |=}}\<close> the open and the close delimiter are the same string.\<close>

theorem C8_equal_delimiters_counterexample:
  "ParseString 10 noFiles ''{{=| |=}}'' =
     Return (Template ''{{=| |=}}'' ''|'' ''|'' 9 1 [] [TextElement [], TextElement []])
   \<and> otag (Template ''{{=| |=}}'' ''|'' ''|'' 9 1 [] [TextElement [], TextElement []])
     = ctag (Template ''{{=| |=}}'' ''|'' ''|'' 9 1 [] [TextElement [], TextElement []])"
  by code_simp


end
